theory Spec2Isabelle
  imports Main "HOL-Library.Sublist" "HOL-Library.AList"
begin

section \<open>JavaScript primitives used by the injector\<close>

text \<open>
  Strings are sequences of code units; the model uses \<^typ>\<open>string\<close>, so code units
  are below 256 (hex bytecode, addresses and paths are ASCII). JavaScript numbers that
  occur here are integers of small magnitude or \<open>NaN\<close>; a number is an
  \<^typ>\<open>int option\<close> with \<open>None\<close> for \<open>NaN\<close>.
\<close>

text \<open>\<open>ToIntegerOrInfinity\<close>: \<open>NaN\<close> becomes 0.\<close>

definition toInteger :: "int option \<Rightarrow> int" where
  "toInteger x = (case x of None \<Rightarrow> 0 | Some n \<Rightarrow> n)"

text \<open>
  \<open>String.prototype.slice(start, end)\<close>: a negative index counts from the end of the
  string, both indices are clamped to \<open>[0, length]\<close>, and an empty range gives the
  empty string. It never throws.
\<close>

definition jsSlice :: "string \<Rightarrow> int \<Rightarrow> int \<Rightarrow> string" where
  "jsSlice s start end =
     (let len = int (length s);
          from = (if start < 0 then max (len + start) 0 else min start len);
          to = (if end < 0 then max (len + end) 0 else min end len)
      in take (nat (to - from)) (drop (nat from) s))"

text \<open>\<open>s.slice(start)\<close>: the end defaults to the length.\<close>

definition jsSliceFrom :: "string \<Rightarrow> int \<Rightarrow> string" where
  "jsSliceFrom s start = jsSlice s start (int (length s))"

text \<open>White space that \<open>parseInt\<close> and \<open>trim\<close> skip, among the code units below 256.\<close>

definition isWhiteSpace :: "char \<Rightarrow> bool" where
  "isWhiteSpace c \<longleftrightarrow> of_char c \<in> {9, 10, 11, 12, 13, 32, 160 :: nat}"

definition hexDigitValue :: "char \<Rightarrow> int option" where
  "hexDigitValue c =
     (let n = (of_char c :: nat) in
      if 48 \<le> n \<and> n \<le> 57 then Some (int n - 48)
      else if 97 \<le> n \<and> n \<le> 102 then Some (int n - 87)
      else if 65 \<le> n \<and> n \<le> 70 then Some (int n - 55)
      else None)"

definition isHexDigit :: "char \<Rightarrow> bool" where
  "isHexDigit c \<longleftrightarrow> hexDigitValue c \<noteq> None"

definition hexValue :: "string \<Rightarrow> int" where
  "hexValue z = foldl (\<lambda>acc c. 16 * acc + toInteger (hexDigitValue c)) 0 z"

text \<open>
  \<open>parseInt(s, 16)\<close>: skip leading white space, read an optional sign, skip an
  optional \<open>0x\<close> or \<open>0X\<close>, and read the longest run of hex digits; no digit
  gives \<open>NaN\<close>. It never throws. The injector applies it to four characters at
  most, where the value is exact.
\<close>

definition stripSign :: "string \<Rightarrow> int \<times> string" where
  "stripSign s =
     (case s of
        [] \<Rightarrow> (1, [])
      | c # r \<Rightarrow> if c = CHR ''-'' then (- 1, r) else if c = CHR ''+'' then (1, r) else (1, s))"

definition stripHexPrefix :: "string \<Rightarrow> string" where
  "stripHexPrefix s =
     (case s of
        c # d # r \<Rightarrow> if c = CHR ''0'' \<and> (d = CHR ''x'' \<or> d = CHR ''X'') then r else s
      | _ \<Rightarrow> s)"

definition parseInt16 :: "string \<Rightarrow> int option" where
  "parseInt16 s =
     (let (sign, s1) = stripSign (dropWhile isWhiteSpace s);
          z = takeWhile isHexDigit (stripHexPrefix s1)
      in if z = [] then None else Some (sign * hexValue z))"

section \<open>Bytecode comparison\<close>

text \<open>
  \<open>trimMetadata\<close> (Injector.ts): the last four characters give the byte size of the
  metadata component; \<open>metadataSize = parseInt(bytecode.slice(-4), 16) * 2 + 4\<close> and the
  result is \<open>bytecode.slice(0, bytecode.length - metadataSize)\<close>.
\<close>

definition metadataSize :: "string \<Rightarrow> int option" where
  "metadataSize bytecode = map_option (\<lambda>n. n * 2 + 4) (parseInt16 (jsSliceFrom bytecode (- 4)))"

definition trimMetadata :: "string \<Rightarrow> string" where
  "trimMetadata bytecode =
     jsSlice bytecode 0
       (toInteger (map_option (\<lambda>m. int (length bytecode) - m) (metadataSize bytecode)))"

datatype status = Perfect | Partial

text \<open>
  \<open>compareBytecodes\<close>: the deployed bytecode may be \<open>null\<close> (\<open>None\<close>); the result
  \<open>null\<close> is \<open>None\<close>. The guard is \<open>deployedBytecode && deployedBytecode.length > 2\<close>.
\<close>

definition compareBytecodes :: "string option \<Rightarrow> string \<Rightarrow> status option" where
  "compareBytecodes deployedBytecode compiledBytecode =
     (case deployedBytecode of
        None \<Rightarrow> None
      | Some d \<Rightarrow>
          if d \<noteq> [] \<and> length d > 2 then
            if d = compiledBytecode then Some Perfect
            else if trimMetadata d = trimMetadata compiledBytecode then Some Partial
            else None
          else None)"


text \<open>
  A hex bytecode string as the chain reader returns it and as \<open>recompile\<close> builds it
  (\<open>`0x${...}`\<close>): the prefix \<open>0x\<close> followed by pairs of hex digits. The empty
  code is the string \<open>0x\<close>.
\<close>

definition isHexBytecode :: "string \<Rightarrow> bool" where
  "isHexBytecode s \<longleftrightarrow> take 2 s = ''0x'' \<and> list_all isHexDigit (drop 2 s) \<and> even (length s)"


section \<open>Errors, data and collaborators\<close>

text \<open>Every \<open>throw\<close> of the injector, and every failure of a library call, is a value.\<close>

datatype error =
    MissingAddress
      \<comment> \<open>\<open>Missing address for submitted sources/metadata\<close>\<close>
  | MissingChain
      \<comment> \<open>\<open>Missing chain name for submitted sources/metadata\<close>\<close>
  | InvalidAddress string
      \<comment> \<open>\<open>toChecksumAddress\<close> rejects the string\<close>
  | InvalidContent string
      \<comment> \<open>\<open>Invalid content for file ${fileName}\<close>\<close>
  | SourceNotFound string string
      \<comment> \<open>file name and digest of a source that cannot be found in the upload\<close>
  | CompilationTargetMissing
      \<comment> \<open>\<open>Could not determine compilation target from metadata.\<close>\<close>
  | CompilerFailure string
      \<comment> \<open>the compiler cannot be loaded, or the contract is absent from its output\<close>
  | DecodeFailure
      \<comment> \<open>\<open>hexToBytes\<close> or \<open>cborDecode\<close> throws\<close>
  | MetadataReferenceMissing
      \<comment> \<open>\<open>Re-compilation successful, but could not find reference to metadata file
          in cbor data.\<close>\<close>
  | NotFoundError "(string \<times> string) list" "string list"
      \<comment> \<open>\<open>Could not match on-chain deployed bytecode to recompiled bytecode\<close>, with
          the compilation target and the addresses checked\<close>

text \<open>
  A \<open>StringMap\<close> is a JavaScript object used as a dictionary; \<open>for ... in\<close> visits its
  keys in insertion order (file names are not array indices), so it is an association
  list.
\<close>

type_synonym StringMap = "(string \<times> string) list"

record sourceEntry =
  content :: "string option"
  keccak256 :: string

text \<open>The metadata descriptor, with the fields the injector reads.\<close>

record descriptor =
  language :: string
  compilerVersion :: string
  compilationTarget :: StringMap
  sources :: "(string \<times> sourceEntry) list"

record contractOutput =
  bytecodeObject :: string
  deployedBytecodeObject :: string
  contractMetadata :: string

record RecompilationResult =
  bytecode_r :: string
  deployedBytecode :: string
  metadata :: string

record Match =
  address :: "string option"
  status :: "status option"

record sourceSet =
  metadata_s :: descriptor
  solidity :: StringMap

record InputData =
  repository :: string
  chain :: "string option"
  addresses :: "string option list"
  files :: "sourceSet list"
  bytecode :: "string option"

text \<open>
  The libraries and services the injector calls are parameters: \<open>toChecksumAddress\<close>
  (web3; \<open>None\<close> when it throws), the registry \<open>this.chains\<close> from a chain to the
  \<open>eth.getCode\<close> of its web3 handle (\<open>None\<close> when the read fails), the compiler,
  \<open>hexToBytes\<close> and \<open>cborDecode\<close> (\<open>None\<close> when they throw; the decoded trailer
  maps a key to a byte string), \<open>multihashes.toB58String\<close> and \<open>keccak256\<close>.
\<close>

record externals =
  toChecksumAddress :: "string \<Rightarrow> string option"
  chains :: "string \<Rightarrow> (string \<Rightarrow> string option) option"
  solc :: "string \<Rightarrow> descriptor \<Rightarrow> StringMap \<Rightarrow> string \<Rightarrow> string \<Rightarrow> error + contractOutput"
  hexToBytes :: "string \<Rightarrow> nat list option"
  cborDecode :: "nat list \<Rightarrow> (string \<Rightarrow> nat list option) option"
  toB58String :: "nat list \<Rightarrow> string"
  keccak :: "string \<Rightarrow> string"

text \<open>
  The effects of a run: the chain reads made (chain and address handed to \<open>eth.getCode\<close>,
  oldest first), the files saved (the arguments of \<open>path.join\<close> that name the file, and
  its content, oldest first) and the number of compiler runs.
\<close>

record world =
  reads :: "(string \<times> string) list"
  writes :: "(string list \<times> string) list"
  compilations :: nat

definition save :: "string list \<Rightarrow> string \<Rightarrow> world \<Rightarrow> world" where
  "save segments text w = w\<lparr>writes := writes w @ [(segments, text)]\<rparr>"

definition truthy :: "string option \<Rightarrow> bool" where
  "truthy x = (case x of None \<Rightarrow> False | Some s \<Rightarrow> s \<noteq> [])"

section \<open>Address scan\<close>

text \<open>
  \<open>getBytecode\<close>: normalise the address, then read the code. The read is recorded when
  \<open>eth.getCode\<close> is called.
\<close>

definition getBytecode ::
  "externals \<Rightarrow> (string \<Rightarrow> string option) \<Rightarrow> string \<Rightarrow> string \<Rightarrow> world \<Rightarrow> string option \<times> world" where
  "getBytecode ext web3 chn addr w =
     (case toChecksumAddress ext addr of
        None \<Rightarrow> (None, w)
      | Some a \<Rightarrow> (web3 a, w\<lparr>reads := reads w @ [(chn, a)]\<rparr>))"

text \<open>
  The \<open>try\<close> block of \<open>matchBytecodeToAddress\<close>: \<open>deployedBytecode\<close> stays \<open>null\<close>
  when the chain is not in the registry or when \<open>getBytecode\<close> throws.
\<close>

definition tryGetBytecode ::
  "externals \<Rightarrow> string \<Rightarrow> string \<Rightarrow> world \<Rightarrow> string option \<times> world" where
  "tryGetBytecode ext chn addr w =
     (case chains ext chn of
        None \<Rightarrow> (None, w)
      | Some web3 \<Rightarrow> getBytecode ext web3 chn addr w)"

text \<open>
  \<open>matchBytecodeToAddress\<close> (Injector.ts): \<open>toChecksumAddress\<close> is called outside the
  \<open>try\<close>, so its failure leaves the function; the first status that is not \<open>null\<close>
  ends the loop.
\<close>

fun matchBytecodeToAddress ::
  "externals \<Rightarrow> string \<Rightarrow> string list \<Rightarrow> string \<Rightarrow> world \<Rightarrow> (error + Match) \<times> world" where
  "matchBytecodeToAddress ext chn [] compiledBytecode w =
     (Inr \<lparr>address = None, status = None\<rparr>, w)"
| "matchBytecodeToAddress ext chn (a # as) compiledBytecode w =
     (case toChecksumAddress ext a of
        None \<Rightarrow> (Inl (InvalidAddress a), w)
      | Some addr \<Rightarrow>
          (case tryGetBytecode ext chn addr w of
             (deployed, w') \<Rightarrow>
               (case compareBytecodes deployed compiledBytecode of
                  Some st \<Rightarrow> (Inr \<lparr>address = Some addr, status = Some st\<rparr>, w')
                | None \<Rightarrow> matchBytecodeToAddress ext chn as compiledBytecode w')))"

text \<open>
  \<open>matchBytecodeToAddress\<close> of the older injector.ts: the comparison is written out in
  the loop, with \<open>trimMetadata\<close> imported from the utilities (a parameter here).
\<close>

fun matchBytecodeToAddressLegacy ::
  "externals \<Rightarrow> (string \<Rightarrow> string) \<Rightarrow> string \<Rightarrow> string list \<Rightarrow> string \<Rightarrow> world
     \<Rightarrow> (error + Match) \<times> world" where
  "matchBytecodeToAddressLegacy ext trim chn [] compiledBytecode w =
     (Inr \<lparr>address = None, status = None\<rparr>, w)"
| "matchBytecodeToAddressLegacy ext trim chn (a # as) compiledBytecode w =
     (case toChecksumAddress ext a of
        None \<Rightarrow> (Inl (InvalidAddress a), w)
      | Some addr \<Rightarrow>
          (case tryGetBytecode ext chn addr w of
             (None, w') \<Rightarrow> matchBytecodeToAddressLegacy ext trim chn as compiledBytecode w'
           | (Some d, w') \<Rightarrow>
               if d \<noteq> [] \<and> length d > 2 then
                 if d = compiledBytecode then
                   (Inr \<lparr>address = Some addr, status = Some Perfect\<rparr>, w')
                 else if trim d = trim compiledBytecode then
                   (Inr \<lparr>address = Some addr, status = Some Partial\<rparr>, w')
                 else matchBytecodeToAddressLegacy ext trim chn as compiledBytecode w'
               else matchBytecodeToAddressLegacy ext trim chn as compiledBytecode w'))"

text \<open>
  What the scan learns about one candidate, without the bookkeeping: the code its
  \<open>try\<close> block yields, the status of that code against the compiled bytecode, and the
  reads the candidate causes.
\<close>

definition onChainCode :: "externals \<Rightarrow> string \<Rightarrow> string \<Rightarrow> string option" where
  "onChainCode ext chn a =
     (case toChecksumAddress ext a of
        None \<Rightarrow> None
      | Some addr \<Rightarrow>
          (case chains ext chn of
             None \<Rightarrow> None
           | Some web3 \<Rightarrow>
               (case toChecksumAddress ext addr of None \<Rightarrow> None | Some a' \<Rightarrow> web3 a')))"

definition candidateStatus :: "externals \<Rightarrow> string \<Rightarrow> string \<Rightarrow> string \<Rightarrow> status option" where
  "candidateStatus ext chn compiledBytecode a =
     compareBytecodes (onChainCode ext chn a) compiledBytecode"

definition candidateReads :: "externals \<Rightarrow> string \<Rightarrow> string \<Rightarrow> (string \<times> string) list" where
  "candidateReads ext chn a =
     (case toChecksumAddress ext a of
        None \<Rightarrow> []
      | Some addr \<Rightarrow>
          (case chains ext chn of
             None \<Rightarrow> []
           | Some web3 \<Rightarrow>
               (case toChecksumAddress ext addr of None \<Rightarrow> [] | Some a' \<Rightarrow> [(chn, a')])))"


section \<open>Repository paths\<close>

text \<open>
  The character class \<open>[^a-z0-9_.\/-]\<close> with the flags \<open>gim\<close>: every character that
  is not an ASCII letter, a digit or one of \<open>_ . / -\<close> becomes \<open>_\<close>.
\<close>

definition isSafeChar :: "char \<Rightarrow> bool" where
  "isSafeChar c \<longleftrightarrow>
     (let n = (of_char c :: nat) in
      (97 \<le> n \<and> n \<le> 122) \<or> (65 \<le> n \<and> n \<le> 90) \<or> (48 \<le> n \<and> n \<le> 57)
      \<or> c = CHR ''_'' \<or> c = CHR ''.'' \<or> c = CHR ''/'' \<or> c = CHR ''-'')"

definition replaceUnsafe :: "string \<Rightarrow> string" where
  "replaceUnsafe s = map (\<lambda>c. if isSafeChar c then c else CHR ''_'') s"

text \<open>
  The length of a match of \<open>[.]+($|\/)\<close> at the start of a string: a run of dots
  that ends the string or is followed by a slash, which is part of the match.
\<close>

definition dotsThenEnd :: "string \<Rightarrow> nat option" where
  "dotsThenEnd s =
     (let n = length (takeWhile (\<lambda>c. c = CHR ''.'') s) in
      if n = 0 then None
      else (case drop n s of
              [] \<Rightarrow> Some n
            | c # _ \<Rightarrow> if c = CHR ''/'' then Some (Suc n) else None))"

text \<open>
  \<open>s.replace(/(^|\/)[.]+($|\/)/, '_')\<close>: the pattern has no \<open>g\<close> flag, so the
  leftmost match only is replaced, delimiters included. The flag tells whether the
  position is the start of the string, where \<open>^\<close> matches.
\<close>

fun replaceDotSegment :: "bool \<Rightarrow> string \<Rightarrow> string" where
  "replaceDotSegment atStart [] = []"
| "replaceDotSegment atStart (c # cs) =
     (case (if atStart then dotsThenEnd (c # cs) else None) of
        Some n \<Rightarrow> CHR ''_'' # drop n (c # cs)
      | None \<Rightarrow>
          (case (if c = CHR ''/'' then dotsThenEnd cs else None) of
             Some n \<Rightarrow> CHR ''_'' # drop n cs
           | None \<Rightarrow> c # replaceDotSegment False cs))"

definition sanitizePath :: "string \<Rightarrow> string" where
  "sanitizePath sourcePath = replaceDotSegment True (replaceUnsafe sourcePath)"

text \<open>
  The path segments of a string, and whether one of them consists of dots only
  (\<open>.\<close> and \<open>..\<close> are the segments that \<open>path.join\<close> resolves).
\<close>

fun splitSlash :: "string \<Rightarrow> string list" where
  "splitSlash [] = [[]]"
| "splitSlash (c # cs) =
     (if c = CHR ''/'' then [] # splitSlash cs
      else (case splitSlash cs of [] \<Rightarrow> [[c]] | seg # segs \<Rightarrow> (c # seg) # segs))"

definition isDotSegment :: "string \<Rightarrow> bool" where
  "isDotSegment seg \<longleftrightarrow> seg \<noteq> [] \<and> list_all (\<lambda>c. c = CHR ''.'') seg"

definition hasDotSegment :: "string \<Rightarrow> bool" where
  "hasDotSegment p \<longleftrightarrow> list_ex isDotSegment (splitSlash p)"

text \<open>
  \<open>path.join\<close> of Node (POSIX): the arguments that are not empty are joined with a
  slash and the result is normalised. Normalisation drops empty segments and \<open>.\<close>;
  a segment \<open>..\<close> removes the segment before it, and where nothing is left to remove
  it is kept in a relative path and dropped in an absolute one; a leading and a
  trailing slash are kept.
\<close>

fun joinSlash :: "string list \<Rightarrow> string" where
  "joinSlash [] = []"
| "joinSlash [s] = s"
| "joinSlash (s # t # ss) = s @ CHR ''/'' # joinSlash (t # ss)"

fun normalizeSegments :: "bool \<Rightarrow> string list \<Rightarrow> string list \<Rightarrow> string list" where
  "normalizeSegments allowAboveRoot res [] = res"
| "normalizeSegments allowAboveRoot res (seg # segs) =
     (if seg = [] \<or> seg = ''.'' then normalizeSegments allowAboveRoot res segs
      else if seg = ''..'' then
        (if res \<noteq> [] \<and> last res \<noteq> ''..'' then
           normalizeSegments allowAboveRoot (butlast res) segs
         else if allowAboveRoot then normalizeSegments allowAboveRoot (res @ [''..'']) segs
         else normalizeSegments allowAboveRoot res segs)
      else normalizeSegments allowAboveRoot (res @ [seg]) segs)"

definition pathNormalize :: "string \<Rightarrow> string" where
  "pathNormalize p =
     (if p = [] then ''.''
      else
        (let isAbsolute = (hd p = CHR ''/'');
             trailingSeparator = (last p = CHR ''/'');
             res = joinSlash (normalizeSegments (\<not> isAbsolute) [] (splitSlash p))
         in if res = [] then (if isAbsolute then ''/'' else if trailingSeparator then ''./'' else ''.'')
            else (if isAbsolute then ''/'' else []) @ res
                 @ (if trailingSeparator then ''/'' else [])))"

definition pathJoin :: "string list \<Rightarrow> string" where
  "pathJoin args =
     (let joined = joinSlash (filter (\<lambda>a. a \<noteq> []) args)
      in if joined = [] then ''.'' else pathNormalize joined)"

text \<open>The paths of the files saved, as \<open>path.join\<close> hands them to \<open>save\<close>.\<close>

definition savedPaths :: "world \<Rightarrow> string list" where
  "savedPaths w = map (\<lambda>(segments, text). pathJoin segments) (writes w)"

section \<open>Storing a match\<close>

text \<open>\<open>Web3.utils.bytesToHex\<close>: \<open>0x\<close> and two lower-case hex digits for each byte.\<close>

definition hexDigit :: "nat \<Rightarrow> char" where
  "hexDigit n = (if n < 10 then char_of (48 + n) else char_of (87 + n))"

definition hexOfBytes :: "nat list \<Rightarrow> string" where
  "hexOfBytes bs = concat (map (\<lambda>b. [hexDigit (b div 16 mod 16), hexDigit (b mod 16)]) bs)"

definition bytesToHex :: "nat list \<Rightarrow> string" where
  "bytesToHex bs = ''0x'' @ hexOfBytes bs"

text \<open>
  The cascade of \<open>storePerfectMatchData\<close> on the decoded trailer: \<open>bzzr0\<close>, then
  \<open>bzzr1\<close>, then \<open>ipfs\<close>. A byte string is an object, hence truthy whenever present.
\<close>

definition metadataPath :: "externals \<Rightarrow> (string \<Rightarrow> nat list option) \<Rightarrow> error + string" where
  "metadataPath ext cborData =
     (case cborData ''bzzr0'' of
        Some b \<Rightarrow> Inr (''/swarm/bzzr0/'' @ jsSliceFrom (bytesToHex b) 2)
      | None \<Rightarrow>
          (case cborData ''bzzr1'' of
             Some b \<Rightarrow> Inr (''/swarm/bzzr1/'' @ jsSliceFrom (bytesToHex b) 2)
           | None \<Rightarrow>
               (case cborData ''ipfs'' of
                  Some b \<Rightarrow> Inr (''/ipfs/'' @ toB58String ext b)
                | None \<Rightarrow> Inl MetadataReferenceMissing)))"

text \<open>The loop that saves every source under \<open>contracts/<kind>/<chain>/<address>/sources\<close>.\<close>

fun saveSources :: "string \<Rightarrow> string \<Rightarrow> string \<Rightarrow> string \<Rightarrow> StringMap \<Rightarrow> world \<Rightarrow> world" where
  "saveSources repo kind chn addr [] w = w"
| "saveSources repo kind chn addr ((sourcePath, text) # rest) w =
     saveSources repo kind chn addr rest
       (save [repo, ''contracts'', kind, chn, addr, ''sources'', sanitizePath sourcePath]
          text w)"

definition storePerfectMatchData ::
  "externals \<Rightarrow> string \<Rightarrow> string \<Rightarrow> string \<Rightarrow> RecompilationResult \<Rightarrow> StringMap \<Rightarrow> world
     \<Rightarrow> (error + unit) \<times> world" where
  "storePerfectMatchData ext repo chn addr compilationResult srcs w =
     (case hexToBytes ext (deployedBytecode compilationResult) of
        None \<Rightarrow> (Inl DecodeFailure, w)
      | Some bytes \<Rightarrow>
          (case cborDecode ext bytes of
             None \<Rightarrow> (Inl DecodeFailure, w)
           | Some cborData \<Rightarrow>
               (case metadataPath ext cborData of
                  Inl e \<Rightarrow> (Inl e, w)
                | Inr mpath \<Rightarrow>
                    (Inr (),
                     saveSources repo ''full_match'' chn addr srcs
                       (save [repo, ''contracts'', ''full_match'', chn, addr, ''/metadata.json'']
                          (metadata compilationResult)
                          (save [repo, mpath] (metadata compilationResult) w))))))"

definition storePartialMatchData ::
  "string \<Rightarrow> string \<Rightarrow> string \<Rightarrow> RecompilationResult \<Rightarrow> StringMap \<Rightarrow> world \<Rightarrow> world" where
  "storePartialMatchData repo chn addr compilationResult srcs w =
     saveSources repo ''partial_match'' chn addr srcs
       (save [repo, ''contracts'', ''partial_match'', chn, addr, ''/metadata.json'']
          (metadata compilationResult) w)"

section \<open>Recompilation\<close>

text \<open>
  \<open>reformatMetadata\<close>: the loop over \<open>compilationTarget\<close> leaves the last file name and
  its contract name; an empty contract name is an error. The compiler input it builds
  is consumed by the compiler only.
\<close>

definition reformatMetadata :: "descriptor \<Rightarrow> error + string \<times> string" where
  "reformatMetadata md =
     (let (fileName, contractName) =
            (if compilationTarget md = [] then ([], []) else last (compilationTarget md))
      in if contractName = [] then Inl CompilationTargetMissing else Inr (fileName, contractName))"

definition jsTrim :: "string \<Rightarrow> string" where
  "jsTrim s = rev (dropWhile isWhiteSpace (rev (dropWhile isWhiteSpace s)))"

definition recompile ::
  "externals \<Rightarrow> descriptor \<Rightarrow> StringMap \<Rightarrow> world \<Rightarrow> (error + RecompilationResult) \<times> world" where
  "recompile ext md srcs w =
     (case reformatMetadata md of
        Inl e \<Rightarrow> (Inl e, w)
      | Inr (fileName, contractName) \<Rightarrow>
          (case solc ext (compilerVersion md) md srcs fileName contractName of
             Inl e \<Rightarrow> (Inl e, w\<lparr>compilations := Suc (compilations w)\<rparr>)
           | Inr out \<Rightarrow>
               (Inr \<lparr>bytecode_r = bytecodeObject out,
                     deployedBytecode = ''0x'' @ deployedBytecodeObject out,
                     metadata = jsTrim (contractMetadata out)\<rparr>,
                w\<lparr>compilations := Suc (compilations w)\<rparr>)))"

section \<open>The pipeline\<close>

definition validateAddresses :: "string option list \<Rightarrow> error + unit" where
  "validateAddresses addrs =
     (if addrs = [] then Inl MissingAddress
      else if list_ex (\<lambda>a. a = None) addrs then Inl MissingAddress
      else Inr ())"

definition validateChain :: "string option \<Rightarrow> error + unit" where
  "validateChain c = (if \<not> truthy c then Inl MissingChain else Inr ())"

text \<open>The strings of a list of nullable strings; all of them once validation has passed.\<close>

definition nonNull :: "string option list \<Rightarrow> string list" where
  "nonNull addrs = List.map_filter (\<lambda>a. a) addrs"

definition chainOf :: "string option \<Rightarrow> string" where
  "chainOf c = (case c of None \<Rightarrow> [] | Some s \<Rightarrow> s)"

text \<open>
  The comparison of \<open>inject\<close>: against \<open>inputData.bytecode\<close> when it is given (with the
  first address, which exists after validation), by the address scan otherwise.
\<close>

definition findMatch ::
  "externals \<Rightarrow> string \<Rightarrow> string list \<Rightarrow> string option \<Rightarrow> string \<Rightarrow> world
     \<Rightarrow> (error + Match) \<times> world" where
  "findMatch ext chn addrs bc compiledBytecode w =
     (if truthy bc then
        (case addrs of
           [] \<Rightarrow> (Inl MissingAddress, w)
         | a # _ \<Rightarrow>
             (case toChecksumAddress ext a of
                None \<Rightarrow> (Inl (InvalidAddress a), w)
              | Some addr \<Rightarrow>
                  (Inr \<lparr>address = Some addr, status = compareBytecodes bc compiledBytecode\<rparr>, w)))
      else matchBytecodeToAddress ext chn addrs compiledBytecode w)"

text \<open>Storing, or \<open>NotFoundError\<close>: the end of the loop body of \<open>inject\<close>.\<close>

definition storeMatch ::
  "externals \<Rightarrow> string \<Rightarrow> string \<Rightarrow> string list \<Rightarrow> StringMap \<Rightarrow> RecompilationResult \<Rightarrow> StringMap
     \<Rightarrow> Match \<Rightarrow> world \<Rightarrow> (error + Match) \<times> world" where
  "storeMatch ext repo chn addrs target compilationResult srcs m w =
     (case address m of
        None \<Rightarrow> (Inl (NotFoundError target addrs), w)
      | Some a \<Rightarrow>
          if a \<noteq> [] \<and> status m = Some Perfect then
            (case storePerfectMatchData ext repo chn a compilationResult srcs w of
               (Inl e, w') \<Rightarrow> (Inl e, w')
             | (Inr _, w') \<Rightarrow> (Inr m, w'))
          else if a \<noteq> [] \<and> status m = Some Partial then
            (Inr m, storePartialMatchData repo chn a compilationResult srcs w)
          else (Inl (NotFoundError target addrs), w))"

text \<open>The loop body of \<open>inject\<close> for one source set.\<close>

definition injectSource ::
  "externals \<Rightarrow> string \<Rightarrow> string \<Rightarrow> string list \<Rightarrow> string option \<Rightarrow> sourceSet \<Rightarrow> world
     \<Rightarrow> (error + Match) \<times> world" where
  "injectSource ext repo chn addrs bc src w =
     (let target = compilationTarget (metadata_s src) in
      case recompile ext (metadata_s src) (solidity src) w of
        (Inl e, w1) \<Rightarrow> (Inl e, w1)
      | (Inr compilationResult, w1) \<Rightarrow>
          (case findMatch ext chn addrs bc (deployedBytecode compilationResult) w1 of
             (Inl e, w2) \<Rightarrow> (Inl e, w2)
           | (Inr m, w2) \<Rightarrow>
               storeMatch ext repo chn addrs target compilationResult (solidity src) m w2))"

fun injectLoop ::
  "externals \<Rightarrow> string \<Rightarrow> string \<Rightarrow> string list \<Rightarrow> string option \<Rightarrow> sourceSet list \<Rightarrow> Match
     \<Rightarrow> world \<Rightarrow> (error + Match) \<times> world" where
  "injectLoop ext repo chn addrs bc [] m w = (Inr m, w)"
| "injectLoop ext repo chn addrs bc (src # rest) m w =
     (case injectSource ext repo chn addrs bc src w of
        (Inl e, w') \<Rightarrow> (Inl e, w')
      | (Inr m', w') \<Rightarrow> injectLoop ext repo chn addrs bc rest m' w')"

definition inject :: "externals \<Rightarrow> InputData \<Rightarrow> world \<Rightarrow> (error + Match) \<times> world" where
  "inject ext inputData w =
     (case validateAddresses (addresses inputData) of
        Inl e \<Rightarrow> (Inl e, w)
      | Inr _ \<Rightarrow>
          (case validateChain (chain inputData) of
             Inl e \<Rightarrow> (Inl e, w)
           | Inr _ \<Rightarrow>
               injectLoop ext (repository inputData) (chainOf (chain inputData))
                 (nonNull (addresses inputData)) (bytecode inputData) (files inputData)
                 \<lparr>address = None, status = None\<rparr> w))"


section \<open>Source assembly\<close>

text \<open>
  \<open>byHash\<close>, \<open>sources\<close> and \<open>metadata.sources\<close> are plain JavaScript objects.
  Reading a key that the object does not own gives the member of that name inherited
  from \<open>Object.prototype\<close>, if there is one; \<open>__proto__\<close> always reads as the
  prototype. Such a member is an object or a function, hence truthy, and not a string.
\<close>

datatype jsValue = Str string | Inherited string

definition objectPrototypeMembers :: "string list" where
  "objectPrototypeMembers =
     [''constructor'', ''__defineGetter__'', ''__defineSetter__'', ''hasOwnProperty'',
      ''__lookupGetter__'', ''__lookupSetter__'', ''isPrototypeOf'', ''propertyIsEnumerable'',
      ''toString'', ''valueOf'', ''__proto__'', ''toLocaleString'']"

definition getKey :: "(string \<Rightarrow> string option) \<Rightarrow> string \<Rightarrow> jsValue option" where
  "getKey obj k =
     (if k = ''__proto__'' then Some (Inherited k)
      else (case obj k of
              Some v \<Rightarrow> Some (Str v)
            | None \<Rightarrow> if k \<in> set objectPrototypeMembers then Some (Inherited k) else None))"

text \<open>
  \<open>for ... in\<close> visits the keys that are array indices (\<open>0\<close>, or digits without a
  leading zero, up to \<open>4294967294\<close>) first, in ascending order, and then the other keys
  in the order of their creation.
\<close>

definition isDigit :: "char \<Rightarrow> bool" where
  "isDigit c \<longleftrightarrow> 48 \<le> (of_char c :: nat) \<and> (of_char c :: nat) \<le> 57"

definition decimalValue :: "string \<Rightarrow> int" where
  "decimalValue s = foldl (\<lambda>acc c. 10 * acc + (int (of_char c) - 48)) 0 s"

definition isArrayIndex :: "string \<Rightarrow> bool" where
  "isArrayIndex s \<longleftrightarrow>
     s \<noteq> [] \<and> list_all isDigit s \<and> (s = ''0'' \<or> hd s \<noteq> CHR ''0'')
     \<and> decimalValue s \<le> 4294967294"

definition forInOrder :: "(string \<times> 'a) list \<Rightarrow> (string \<times> 'a) list" where
  "forInOrder props =
     sort_key (\<lambda>p. decimalValue (fst p)) (filter (\<lambda>p. isArrayIndex (fst p)) props)
     @ filter (\<lambda>p. \<not> isArrayIndex (fst p)) props"

text \<open>
  \<open>storeByHash\<close>: the uploaded files by the digest of their content; a later file
  with the same digest replaces an earlier one. Assigning a string to the key
  \<open>__proto__\<close> has no effect.
\<close>

definition storeByHash :: "externals \<Rightarrow> string list \<Rightarrow> (string \<Rightarrow> string option)" where
  "storeByHash ext fs =
     fold (\<lambda>f byHash. if keccak ext f = ''__proto__'' then byHash else byHash(keccak ext f \<mapsto> f))
       fs Map.empty"

text \<open>
  One round of the loop of \<open>rearrangeSources\<close>: inline content that is truthy (present
  and not empty) is checked against the digest; otherwise the content is what
  \<open>byHash[hash]\<close> reads; content that is then missing or empty is reported as not found.
\<close>

definition resolveContent ::
  "externals \<Rightarrow> (string \<Rightarrow> string option) \<Rightarrow> string \<Rightarrow> sourceEntry \<Rightarrow> error + jsValue" where
  "resolveContent ext byHash fileName entry =
     (let hash = keccak256 entry;
          found = (case content entry of
                     None \<Rightarrow> Inr (getKey byHash hash)
                   | Some c \<Rightarrow>
                       if c \<noteq> [] then
                         (if keccak ext c \<noteq> hash then Inl (InvalidContent fileName)
                          else Inr (Some (Str c)))
                       else Inr (getKey byHash hash))
      in case found of
           Inl e \<Rightarrow> Inl e
         | Inr None \<Rightarrow> Inl (SourceNotFound fileName hash)
         | Inr (Some v) \<Rightarrow> if v = Str [] then Inl (SourceNotFound fileName hash) else Inr v)"

text \<open>
  \<open>sources[fileName] = content\<close>: the key is created or its value replaced, except for
  \<open>__proto__\<close>, where the assignment creates no key (a string is ignored there; the
  prototype that an inherited member would install is not modelled).
\<close>

definition setKey :: "string \<Rightarrow> 'v \<Rightarrow> (string \<times> 'v) list \<Rightarrow> (string \<times> 'v) list" where
  "setKey k v obj = (if k = ''__proto__'' then obj else AList.update k v obj)"

fun rearrangeLoop ::
  "externals \<Rightarrow> (string \<Rightarrow> string option) \<Rightarrow> (string \<times> sourceEntry) list
     \<Rightarrow> (string \<times> jsValue) list \<Rightarrow> error + (string \<times> jsValue) list" where
  "rearrangeLoop ext byHash [] acc = Inr acc"
| "rearrangeLoop ext byHash ((fileName, entry) # rest) acc =
     (case resolveContent ext byHash fileName entry of
        Inl e \<Rightarrow> Inl e
      | Inr c \<Rightarrow> rearrangeLoop ext byHash rest (setKey fileName c acc))"

text \<open>
  \<open>rearrangeSources\<close>: the field \<open>sources\<close> of the descriptor lists the keys of
  \<open>metadata.sources\<close> in the order of their creation; the loop visits them in the
  order of \<open>for ... in\<close>.
\<close>

definition rearrangeSources ::
  "externals \<Rightarrow> descriptor \<Rightarrow> string list \<Rightarrow> error + (string \<times> jsValue) list" where
  "rearrangeSources ext md fs =
     rearrangeLoop ext (storeByHash ext fs) (forInOrder (sources md)) []"

text \<open>
  What the metadata asks of an entry, in the words of the specification: inline
  content has the declared digest, or, without inline content, some uploaded file has it.
\<close>

definition entryVerified :: "externals \<Rightarrow> string list \<Rightarrow> sourceEntry \<Rightarrow> bool" where
  "entryVerified ext fs e \<longleftrightarrow>
     (case content e of
        Some c \<Rightarrow> keccak ext c = keccak256 e
      | None \<Rightarrow> list_ex (\<lambda>f. keccak ext f = keccak256 e) fs)"

text \<open>
  The entries for which the truthiness tests and the plain objects of
  \<open>rearrangeSources\<close> behave like a dictionary of texts: inline content is not the
  empty text, and a digest that is looked up is neither the digest of the empty text
  nor the name of a member of \<open>Object.prototype\<close>.
\<close>

definition ordinaryEntry :: "externals \<Rightarrow> sourceEntry \<Rightarrow> bool" where
  "ordinaryEntry ext e \<longleftrightarrow>
     content e \<noteq> Some []
     \<and> (content e = None \<longrightarrow>
          keccak256 e \<noteq> keccak ext [] \<and> keccak256 e \<notin> set objectPrototypeMembers)"

section \<open>A small environment for the examples\<close>

text \<open>
  A chain \<open>1\<close> on which the read of \<open>0xA1\<close> fails, \<open>0xA2\<close> holds code that differs
  from the compiled \<open>0x6001a1a10002\<close> in the trailer only, \<open>0xA3\<close> holds the compiled
  code and every other address is empty; the other collaborators are stand-ins.
\<close>

definition demoCode :: "string \<Rightarrow> string option" where
  "demoCode a =
     (if a = ''0xA1'' then None
      else if a = ''0xA2'' then Some ''0x6001b2b20002''
      else if a = ''0xA3'' then Some ''0x6001a1a10002''
      else Some ''0x'')"

definition demoExt :: externals where
  "demoExt =
     \<lparr>toChecksumAddress = (\<lambda>a. if take 2 a = ''0x'' then Some a else None),
      chains = (\<lambda>c. if c = ''1'' then Some demoCode else None),
      solc = (\<lambda>v md srcs f c.
                Inr \<lparr>bytecodeObject = ''6001'', deployedBytecodeObject = ''6001a1a10002'',
                     contractMetadata = ''{}''\<rparr>),
      hexToBytes = (\<lambda>s. Some [0]),
      cborDecode = (\<lambda>bs. Some (Map.empty(''ipfs'' \<mapsto> [18, 32]))),
      toB58String = (\<lambda>bs. ''Qm''),
      keccak = (\<lambda>s. ''0x'' @ s)\<rparr>"

definition world0 :: world where
  "world0 = \<lparr>reads = [], writes = [], compilations = 0\<rparr>"

definition demoDescriptor :: descriptor where
  "demoDescriptor =
     \<lparr>language = ''Solidity'', compilerVersion = ''0.6.0'',
      compilationTarget = [(''A.sol'', ''A'')],
      sources = [(''A.sol'', \<lparr>content = None, keccak256 = ''0xcontract A {}''\<rparr>)]\<rparr>"

definition demoSource :: sourceSet where
  "demoSource = \<lparr>metadata_s = demoDescriptor, solidity = [(''A.sol'', ''contract A {}'')]\<rparr>"

definition demoResult :: RecompilationResult where
  "demoResult =
     \<lparr>bytecode_r = ''6001'', deployedBytecode = ''0x6001a1a10002'', metadata = ''{}''\<rparr>"

definition demoInput :: "string option list \<Rightarrow> string option \<Rightarrow> InputData" where
  "demoInput addrs bc =
     \<lparr>repository = ''repo'', chain = Some ''1'', addresses = addrs, files = [demoSource],
      bytecode = bc\<rparr>"



text \<open>A source set whose file names hold several dot segments.\<close>

definition demoTraversal :: sourceSet where
  "demoTraversal =
     \<lparr>metadata_s = demoDescriptor,
      solidity = [(''a/../../../../../../../full_match/1/0xA2/metadata.json'', ''{}''),
                  (''a/../../../../../../../../ipfs/Qm'', ''{}'')]\<rparr>"

text \<open>
  Descriptors for the examples of source assembly; the stand-in digest of a text is
  \<open>0x\<close> followed by the text.
\<close>

definition demoSources :: "(string \<times> sourceEntry) list \<Rightarrow> descriptor" where
  "demoSources entries = demoDescriptor\<lparr>sources := entries\<rparr>"

definition demoComplete :: descriptor where
  "demoComplete =
     demoSources
       [(''A.sol'', \<lparr>content = None, keccak256 = ''0xcontract A {}''\<rparr>),
        (''B.sol'', \<lparr>content = Some ''contract B {}'', keccak256 = ''0xcontract B {}''\<rparr>)]"

definition demoTampered :: descriptor where
  "demoTampered =
     demoSources
       [(''A.sol'', \<lparr>content = None, keccak256 = ''0xcontract A {}''\<rparr>),
        (''B.sol'', \<lparr>content = Some ''contract B { }'', keccak256 = ''0xcontract B {}''\<rparr>)]"

definition demoMissingThenTampered :: descriptor where
  "demoMissingThenTampered =
     demoSources
       [(''C.sol'', \<lparr>content = None, keccak256 = ''0xcontract C {}''\<rparr>),
        (''B.sol'', \<lparr>content = Some ''contract B { }'', keccak256 = ''0xcontract B {}''\<rparr>)]"

definition demoEmptyFile :: descriptor where
  "demoEmptyFile = demoSources [(''E.sol'', \<lparr>content = None, keccak256 = ''0x''\<rparr>)]"

definition demoEmptyInline :: descriptor where
  "demoEmptyInline =
     demoSources [(''A.sol'', \<lparr>content = Some [], keccak256 = ''0xcontract A {}''\<rparr>)]"

definition demoInheritedDigest :: descriptor where
  "demoInheritedDigest = demoSources [(''A.sol'', \<lparr>content = None, keccak256 = ''toString''\<rparr>)]"

definition demoProtoName :: descriptor where
  "demoProtoName =
     demoSources [(''__proto__'', \<lparr>content = None, keccak256 = ''0xcontract A {}''\<rparr>)]"

definition demoIndexName :: descriptor where
  "demoIndexName =
     demoSources
       [(''B.sol'', \<lparr>content = Some ''contract B { }'', keccak256 = ''0xcontract B {}''\<rparr>),
        (''7'', \<lparr>content = None, keccak256 = ''0xcontract C {}''\<rparr>)]"

section \<open>Properties of the bytecode comparison\<close>

lemma isHexBytecode_length:
  assumes "isHexBytecode d" and "d \<noteq> ''0x''"
  shows "length d > 2"
proof (rule ccontr)
  assume "\<not> length d > 2"
  then have le: "length d \<le> 2" by simp
  from assms(1) have t: "take 2 d = ''0x''" by (simp add: isHexBytecode_def)
  from le have "take 2 d = d" by simp
  with t assms(2) show False by simp
qed

lemma compareBytecodes_long:
  "length d > 2 \<Longrightarrow> compareBytecodes (Some d) c =
     (if d = c then Some Perfect
      else if trimMetadata d = trimMetadata c then Some Partial else None)"
  by (auto simp: compareBytecodes_def)

lemma compareBytecodes_short:
  "length d \<le> 2 \<Longrightarrow> compareBytecodes (Some d) c = None"
  by (simp add: compareBytecodes_def)

lemma compareBytecodes_null: "compareBytecodes None c = None"
  by (simp add: compareBytecodes_def)

text \<open>
  Claim C1. For hex bytecode strings, \<open>compareBytecodes\<close> is the cascade of the
  specification: no match when the deployed bytecode is \<open>null\<close>, empty or the empty
  code \<open>0x\<close>; otherwise a perfect match when deployed and compiled bytecode are
  equal (so every non-empty bytecode matches itself perfectly); a partial match exactly
  when they differ and their trimmed forms are equal; and no match in the remaining case.
  The compiled bytecode may be any string.
\<close>

theorem compareBytecodes_classification:
  assumes "d = [] \<or> isHexBytecode d"
  shows "compareBytecodes None c = None
       \<and> (d = [] \<or> d = ''0x'' \<longrightarrow> compareBytecodes (Some d) c = None)
       \<and> (d \<noteq> [] \<and> d \<noteq> ''0x'' \<longrightarrow>
            compareBytecodes (Some d) d = Some Perfect
          \<and> (d = c \<longrightarrow> compareBytecodes (Some d) c = Some Perfect)
          \<and> (compareBytecodes (Some d) c = Some Partial
               \<longleftrightarrow> d \<noteq> c \<and> trimMetadata d = trimMetadata c)
          \<and> (d \<noteq> c \<and> trimMetadata d \<noteq> trimMetadata c \<longrightarrow> compareBytecodes (Some d) c = None))"
proof (intro conjI impI)
  show "compareBytecodes None c = None" by (rule compareBytecodes_null)
next
  assume "d = [] \<or> d = ''0x''"
  then have "length d \<le> 2" by auto
  then show "compareBytecodes (Some d) c = None" by (rule compareBytecodes_short)
next
  assume ne: "d \<noteq> [] \<and> d \<noteq> ''0x''"
  with assms have len: "length d > 2" by (auto dest: isHexBytecode_length)
  show "compareBytecodes (Some d) d = Some Perfect"
    using len by (simp add: compareBytecodes_long)
  show "compareBytecodes (Some d) c = Some Partial \<longleftrightarrow> d \<noteq> c \<and> trimMetadata d = trimMetadata c"
    using len by (simp add: compareBytecodes_long)
  { assume "d = c"
    then show "compareBytecodes (Some d) c = Some Perfect"
      using len by (simp add: compareBytecodes_long) }
  { assume "d \<noteq> c \<and> trimMetadata d \<noteq> trimMetadata c"
    then show "compareBytecodes (Some d) c = None"
      using len by (simp add: compareBytecodes_long) }
qed

theorem compareBytecodes_classification_witness:
  "(''0x6001a1a10002'' = [] \<or> isHexBytecode ''0x6001a1a10002'')
   \<and> ''0x6001a1a10002'' \<noteq> [] \<and> ''0x6001a1a10002'' \<noteq> ''0x''
   \<and> ''0x6001a1a10002'' \<noteq> ''0x6001b2b20002''
   \<and> trimMetadata ''0x6001a1a10002'' = trimMetadata ''0x6001b2b20002''
   \<and> compareBytecodes (Some ''0x6001a1a10002'') ''0x6001a1a10002'' = Some Perfect
   \<and> compareBytecodes (Some ''0x6001a1a10002'') ''0x6001b2b20002'' = Some Partial
   \<and> compareBytecodes (Some ''0x'') ''0x6001b2b20002'' = None"
proof -
  have h: "''0x6001a1a10002'' = [] \<or> isHexBytecode ''0x6001a1a10002''" by code_simp
  have t: "trimMetadata ''0x6001a1a10002'' = trimMetadata ''0x6001b2b20002''" by code_simp
  have h0: "''0x'' = [] \<or> isHexBytecode ''0x''" by code_simp
  show ?thesis
    using h t compareBytecodes_classification [OF h, of "''0x6001b2b20002''"]
      compareBytecodes_classification [OF h0, of "''0x6001b2b20002''"]
    by simp
qed

lemma jsSlice_zero:
  "jsSlice s 0 e =
     take (nat (if e < 0 then max (int (length s) + e) 0 else min e (int (length s)))) s"
  by (simp add: jsSlice_def Let_def)

lemma jsSlice_zero_prefix: "prefix (jsSlice s 0 e) s"
  by (simp add: jsSlice_zero take_is_prefix)

lemma trimMetadata_prefix: "prefix (trimMetadata b) b"
  by (simp add: trimMetadata_def jsSlice_zero_prefix)

lemma trimMetadata_underflow:
  assumes "metadataSize b = Some m" and "int (length b) < m"
  shows "trimMetadata b = take (nat (2 * int (length b) - m)) b"
  using assms by (simp add: trimMetadata_def jsSlice_zero toInteger_def max_def)

lemma compareBytecodes_None_iff:
  "compareBytecodes d c = None \<longleftrightarrow>
     (case d of None \<Rightarrow> True
      | Some s \<Rightarrow> length s \<le> 2 \<or> (s \<noteq> c \<and> trimMetadata s \<noteq> trimMetadata c))"
  by (auto simp: compareBytecodes_def split: option.splits)

text \<open>
  Claim C2, as stated, fails: a deployed bytecode shorter than its declared trailer is not
  forced to \<open>none\<close>. The deployed code \<open>0x60010005\<close> declares a trailer of 5 bytes
  (14 characters with the length field) but has 10 characters; \<open>slice\<close> then counts the
  negative end from the end of the string and keeps \<open>0x6001\<close>, which is the trimmed form
  of the compiled \<open>0x6001a00001\<close>, and the pair is a partial match.
\<close>

theorem trimMetadata_underflow_counterexample:
  "metadataSize ''0x60010005'' = Some 14
   \<and> int (length ''0x60010005'') < 14
   \<and> compareBytecodes (Some ''0x60010005'') ''0x6001a00001'' = Some Partial"
  by code_simp

text \<open>
  Claim C2, amended. \<open>trimMetadata\<close> is total (every step of it is a total JavaScript
  operation) and returns a prefix of its input, so its result is never longer than the
  input, also when the declared trailer exceeds the string: then the result is the first
  \<open>max 0 (2 * length - metadataSize)\<close> characters. The comparison is total as well and
  yields no match exactly when the deployed bytecode is \<open>null\<close>, has at most two
  characters, or differs from the compiled one with a different trimmed form; underflow
  alone does not make it \<open>none\<close>.
\<close>

theorem trimMetadata_total_prefix:
  "prefix (trimMetadata b) b
   \<and> length (trimMetadata b) \<le> length b
   \<and> (metadataSize b = Some m \<and> int (length b) < m \<longrightarrow>
        trimMetadata b = take (nat (2 * int (length b) - m)) b)
   \<and> (compareBytecodes d c = None \<longleftrightarrow>
        (case d of None \<Rightarrow> True
         | Some s \<Rightarrow> length s \<le> 2 \<or> (s \<noteq> c \<and> trimMetadata s \<noteq> trimMetadata c)))"
  using trimMetadata_prefix [of b] prefix_length_le [OF trimMetadata_prefix [of b]]
    trimMetadata_underflow [of b m] compareBytecodes_None_iff [of d c]
  by blast

theorem trimMetadata_total_prefix_witness:
  "metadataSize ''0x60010005'' = Some 14
   \<and> int (length ''0x60010005'') < 14
   \<and> trimMetadata ''0x60010005'' = ''0x6001''
   \<and> length (trimMetadata ''0x60010005'') \<le> length ''0x60010005''
   \<and> compareBytecodes (Some ''0x60010005'') ''0x6001a00001'' \<noteq> None"
proof -
  have m: "metadataSize ''0x60010005'' = Some 14" by code_simp
  have c: "compareBytecodes (Some ''0x60010005'') ''0x6001a00001'' = Some Partial" by code_simp
  show ?thesis
    using m c trimMetadata_total_prefix
      [of "''0x60010005''" 14 "Some ''0x60010005''" "''0x6001a00001''"]
    by simp
qed

section \<open>Properties of the address scan\<close>

lemma tryGetBytecode_eq:
  assumes "toChecksumAddress ext a = Some addr"
  shows "tryGetBytecode ext chn addr w =
           (onChainCode ext chn a, w\<lparr>reads := reads w @ candidateReads ext chn a\<rparr>)"
  using assms
  by (simp add: tryGetBytecode_def getBytecode_def onChainCode_def candidateReads_def
      split: option.splits)

lemma scan_step:
  assumes "toChecksumAddress ext a = Some addr"
  shows "matchBytecodeToAddress ext chn (a # as) c w =
           (case candidateStatus ext chn c a of
              Some st \<Rightarrow> (Inr \<lparr>address = Some addr, status = Some st\<rparr>,
                          w\<lparr>reads := reads w @ candidateReads ext chn a\<rparr>)
            | None \<Rightarrow> matchBytecodeToAddress ext chn as c
                        (w\<lparr>reads := reads w @ candidateReads ext chn a\<rparr>))"
  using assms by (simp add: tryGetBytecode_eq [OF assms] candidateStatus_def split: option.splits)

lemma scan_first_match:
  assumes "i < length addrs"
    and "\<forall>a\<in>set (take (Suc i) addrs). toChecksumAddress ext a \<noteq> None"
    and "\<forall>a\<in>set (take i addrs). candidateStatus ext chn c a = None"
    and "candidateStatus ext chn c (addrs ! i) = Some st"
  shows "matchBytecodeToAddress ext chn addrs c w =
           (Inr \<lparr>address = toChecksumAddress ext (addrs ! i), status = Some st\<rparr>,
            w\<lparr>reads := reads w @ concat (map (candidateReads ext chn) (take (Suc i) addrs))\<rparr>)"
  using assms
proof (induction addrs arbitrary: i w)
  case Nil
  then show ?case by simp
next
  case (Cons a as)
  from Cons.prems(2) have "toChecksumAddress ext a \<noteq> None" by simp
  then obtain addr where addr: "toChecksumAddress ext a = Some addr" by auto
  show ?case
  proof (cases i)
    case 0
    with Cons.prems(4) have "candidateStatus ext chn c a = Some st" by simp
    with addr 0 show ?thesis
      by (simp add: scan_step [OF addr] del: matchBytecodeToAddress.simps)
  next
    case (Suc k)
    with Cons.prems(3) have none: "candidateStatus ext chn c a = None" by simp
    have k: "k < length as" using Cons.prems(1) Suc by simp
    have v: "\<forall>a\<in>set (take (Suc k) as). toChecksumAddress ext a \<noteq> None"
      using Cons.prems(2) Suc by simp
    have n: "\<forall>a\<in>set (take k as). candidateStatus ext chn c a = None"
      using Cons.prems(3) Suc by simp
    have m: "candidateStatus ext chn c (as ! k) = Some st"
      using Cons.prems(4) Suc by simp
    show ?thesis
      using Cons.IH [OF k v n m, of "w\<lparr>reads := reads w @ candidateReads ext chn a\<rparr>"] none Suc
      by (simp add: scan_step [OF addr] del: matchBytecodeToAddress.simps)
  qed
qed

lemma scan_no_match:
  assumes "\<forall>a\<in>set addrs. toChecksumAddress ext a \<noteq> None \<and> candidateStatus ext chn c a = None"
  shows "matchBytecodeToAddress ext chn addrs c w =
           (Inr \<lparr>address = None, status = None\<rparr>,
            w\<lparr>reads := reads w @ concat (map (candidateReads ext chn) addrs)\<rparr>)"
  using assms
proof (induction addrs arbitrary: w)
  case Nil
  then show ?case by simp
next
  case (Cons a as)
  then obtain addr where addr: "toChecksumAddress ext a = Some addr" by auto
  from Cons.prems have none: "candidateStatus ext chn c a = None" by simp
  from Cons.prems have rest: "\<forall>a\<in>set as. toChecksumAddress ext a \<noteq> None \<and> candidateStatus ext chn c a = None"
    by simp
  show ?case
    using Cons.IH [OF rest, of "w\<lparr>reads := reads w @ candidateReads ext chn a\<rparr>"] none
    by (simp add: scan_step [OF addr] del: matchBytecodeToAddress.simps)
qed

lemma scan_error:
  assumes "fst (matchBytecodeToAddress ext chn addrs c w) = Inl e"
  shows "\<exists>a\<in>set addrs. toChecksumAddress ext a = None \<and> e = InvalidAddress a"
  using assms
proof (induction addrs arbitrary: w)
  case Nil
  then show ?case by simp
next
  case (Cons a as)
  show ?case
  proof (cases "toChecksumAddress ext a")
    case None
    with Cons.prems show ?thesis by simp
  next
    case (Some addr)
    show ?thesis
    proof (cases "candidateStatus ext chn c a")
      case None
      with Cons.prems Some
      have "fst (matchBytecodeToAddress ext chn as c (w\<lparr>reads := reads w @ candidateReads ext chn a\<rparr>)) = Inl e"
        by (simp add: scan_step [OF Some] del: matchBytecodeToAddress.simps)
      from Cons.IH [OF this] show ?thesis by auto
    next
      case (Some st)
      with Cons.prems \<open>toChecksumAddress ext a = Some addr\<close> show ?thesis
        by (simp add: scan_step [OF \<open>toChecksumAddress ext a = Some addr\<close>] del: matchBytecodeToAddress.simps)
    qed
  qed
qed

lemma legacy_scan_eq:
  "matchBytecodeToAddressLegacy ext trimMetadata chn addrs c w =
     matchBytecodeToAddress ext chn addrs c w"
proof (induction addrs arbitrary: w)
  case Nil
  then show ?case by simp
next
  case (Cons a as)
  then show ?case
    by (auto simp: compareBytecodes_def split: option.splits prod.splits)
qed

text \<open>
  Claim C3. The scan goes through the candidates in input order. When the candidate at
  index \<open>i\<close> is the first whose on-chain code compares as a match, the scan returns
  that address (checksum-normalised) with that status, whatever the later candidates
  hold, and the chain reads it has made are those of the candidates up to index \<open>i\<close>;
  when no candidate matches, it returns the match with address \<open>null\<close> and status
  \<open>null\<close>. The candidates are addresses that \<open>toChecksumAddress\<close> accepts. By
  \<open>legacy_scan_eq\<close> the scan of the older injector.ts behaves in the same way.
\<close>

theorem matchBytecodeToAddress_first_match:
  "(i < length addrs
      \<and> (\<forall>a\<in>set (take (Suc i) addrs). toChecksumAddress ext a \<noteq> None)
      \<and> (\<forall>a\<in>set (take i addrs). candidateStatus ext chn c a = None)
      \<and> candidateStatus ext chn c (addrs ! i) = Some st
    \<longrightarrow> matchBytecodeToAddress ext chn addrs c w =
          (Inr \<lparr>address = toChecksumAddress ext (addrs ! i), status = Some st\<rparr>,
           w\<lparr>reads := reads w @ concat (map (candidateReads ext chn) (take (Suc i) addrs))\<rparr>))
   \<and> ((\<forall>a\<in>set addrs. toChecksumAddress ext a \<noteq> None \<and> candidateStatus ext chn c a = None)
    \<longrightarrow> matchBytecodeToAddress ext chn addrs c w =
          (Inr \<lparr>address = None, status = None\<rparr>,
           w\<lparr>reads := reads w @ concat (map (candidateReads ext chn) addrs)\<rparr>))"
  using scan_first_match [of i addrs ext chn c st w] scan_no_match [of addrs ext chn c w]
  by blast

theorem matchBytecodeToAddress_first_match_witness:
  "matchBytecodeToAddress demoExt ''1'' [''0xA1'', ''0xA2'', ''0xA3''] ''0x6001a1a10002'' world0 =
     (Inr \<lparr>address = Some ''0xA2'', status = Some Partial\<rparr>,
      world0\<lparr>reads := [(''1'', ''0xA1''), (''1'', ''0xA2'')]\<rparr>)
   \<and> candidateStatus demoExt ''1'' ''0x6001a1a10002'' ''0xA3'' = Some Perfect
   \<and> matchBytecodeToAddress demoExt ''1'' [''0xA1'', ''0xA4''] ''0x6001a1a10002'' world0 =
     (Inr \<lparr>address = None, status = None\<rparr>,
      world0\<lparr>reads := [(''1'', ''0xA1''), (''1'', ''0xA4'')]\<rparr>)"
proof -
  have s1: "candidateStatus demoExt ''1'' ''0x6001a1a10002'' ''0xA1'' = None" by code_simp
  have s2: "candidateStatus demoExt ''1'' ''0x6001a1a10002'' ''0xA2'' = Some Partial" by code_simp
  have s3: "candidateStatus demoExt ''1'' ''0x6001a1a10002'' ''0xA3'' = Some Perfect" by code_simp
  have s4: "candidateStatus demoExt ''1'' ''0x6001a1a10002'' ''0xA4'' = None" by code_simp
  have c1: "toChecksumAddress demoExt ''0xA1'' = Some ''0xA1''" by code_simp
  have c2: "toChecksumAddress demoExt ''0xA2'' = Some ''0xA2''" by code_simp
  have c4: "toChecksumAddress demoExt ''0xA4'' = Some ''0xA4''" by code_simp
  have r1: "candidateReads demoExt ''1'' ''0xA1'' = [(''1'', ''0xA1'')]" by code_simp
  have r2: "candidateReads demoExt ''1'' ''0xA2'' = [(''1'', ''0xA2'')]" by code_simp
  have r4: "candidateReads demoExt ''1'' ''0xA4'' = [(''1'', ''0xA4'')]" by code_simp
  have w0: "reads world0 = []" by (simp add: world0_def)
  show ?thesis
    using s1 s2 s3 s4 c1 c2 c4 r1 r2 r4 w0
      matchBytecodeToAddress_first_match
        [of 1 "[''0xA1'', ''0xA2'', ''0xA3'']" demoExt "''1''" "''0x6001a1a10002''" Partial world0]
      matchBytecodeToAddress_first_match
        [of 0 "[''0xA1'', ''0xA4'']" demoExt "''1''" "''0x6001a1a10002''" Partial world0]
    by simp
qed

lemma scan_skip_failed_read:
  assumes "toChecksumAddress ext a = Some addr" and "onChainCode ext chn a = None"
  shows "matchBytecodeToAddress ext chn (a # as) c w =
           matchBytecodeToAddress ext chn as c (w\<lparr>reads := reads w @ candidateReads ext chn a\<rparr>)"
  using assms(2)
  by (simp add: scan_step [OF assms(1)] candidateStatus_def compareBytecodes_null
      del: matchBytecodeToAddress.simps)

lemma scan_result_cases:
  assumes "\<forall>a\<in>set addrs. toChecksumAddress ext a \<noteq> None"
  shows "\<exists>m w'. matchBytecodeToAddress ext chn addrs c w = (Inr m, w')
           \<and> ((address m = None \<and> status m = None
                 \<and> (\<forall>a\<in>set addrs. candidateStatus ext chn c a = None))
              \<or> (\<exists>a\<in>set addrs. \<exists>st. address m = toChecksumAddress ext a \<and> status m = Some st
                    \<and> candidateStatus ext chn c a = Some st))"
  using assms
proof (induction addrs arbitrary: w)
  case Nil
  then show ?case by simp
next
  case (Cons a as)
  then obtain addr where addr: "toChecksumAddress ext a = Some addr" by auto
  from Cons.prems have rest: "\<forall>a\<in>set as. toChecksumAddress ext a \<noteq> None" by simp
  show ?case
  proof (cases "candidateStatus ext chn c a")
    case None
    from Cons.IH [OF rest, of "w\<lparr>reads := reads w @ candidateReads ext chn a\<rparr>"]
    obtain m w' where
      r: "matchBytecodeToAddress ext chn as c (w\<lparr>reads := reads w @ candidateReads ext chn a\<rparr>) = (Inr m, w')"
      and d: "(address m = None \<and> status m = None
                 \<and> (\<forall>a\<in>set as. candidateStatus ext chn c a = None))
              \<or> (\<exists>a\<in>set as. \<exists>st. address m = toChecksumAddress ext a \<and> status m = Some st
                    \<and> candidateStatus ext chn c a = Some st)"
      by blast
    have "matchBytecodeToAddress ext chn (a # as) c w = (Inr m, w')"
      using None r by (simp add: scan_step [OF addr] del: matchBytecodeToAddress.simps)
    moreover from d None have
      "(address m = None \<and> status m = None
          \<and> (\<forall>a\<in>set (a # as). candidateStatus ext chn c a = None))
       \<or> (\<exists>a\<in>set (a # as). \<exists>st. address m = toChecksumAddress ext a \<and> status m = Some st
             \<and> candidateStatus ext chn c a = Some st)"
      by auto
    ultimately show ?thesis by blast
  next
    case (Some st)
    have "matchBytecodeToAddress ext chn (a # as) c w =
            (Inr \<lparr>address = Some addr, status = Some st\<rparr>,
             w\<lparr>reads := reads w @ candidateReads ext chn a\<rparr>)"
      using Some by (simp add: scan_step [OF addr] del: matchBytecodeToAddress.simps)
    with addr Some show ?thesis by auto
  qed
qed

lemma storePerfectMatchData_error:
  assumes "storePerfectMatchData ext repo chn addr cr srcs w = (Inl e, w')"
  shows "(e = DecodeFailure \<or> e = MetadataReferenceMissing) \<and> w' = w"
  using assms
  by (auto simp: storePerfectMatchData_def metadataPath_def split: option.splits sum.splits)

lemma storeMatch_NotFound_iff:
  "fst (storeMatch ext repo chn addrs target cr srcs m w) = Inl (NotFoundError target addrs)
     \<longleftrightarrow> \<not> (truthy (address m) \<and> status m \<noteq> None)"
proof (cases "address m")
  case None
  then show ?thesis by (simp add: storeMatch_def truthy_def)
next
  case (Some a)
  show ?thesis
  proof (cases "status m")
    case None
    with Some show ?thesis by (simp add: storeMatch_def truthy_def)
  next
    case st: (Some st)
    show ?thesis
    proof (cases st)
      case Perfect
      obtain r w' where r: "storePerfectMatchData ext repo chn a cr srcs w = (r, w')"
        by (cases "storePerfectMatchData ext repo chn a cr srcs w")
      show ?thesis
      proof (cases r)
        case (Inl e)
        with r storePerfectMatchData_error [of ext repo chn a cr srcs w e w']
        have "e = DecodeFailure \<or> e = MetadataReferenceMissing" by simp
        with Some st Perfect r Inl show ?thesis
          by (auto simp: storeMatch_def truthy_def)
      next
        case (Inr u)
        with Some st Perfect r show ?thesis by (auto simp: storeMatch_def truthy_def)
      qed
    next
      case Partial
      with Some st show ?thesis by (auto simp: storeMatch_def truthy_def)
    qed
  qed
qed

lemma injectSource_scan:
  assumes "\<not> truthy bc" and "recompile ext (metadata_s src) (solidity src) w = (Inr cr, w1)"
    and "matchBytecodeToAddress ext chn addrs (deployedBytecode cr) w1 = (Inr m, w2)"
  shows "injectSource ext repo chn addrs bc src w =
           storeMatch ext repo chn addrs (compilationTarget (metadata_s src)) cr (solidity src) m w2"
  using assms by (simp add: injectSource_def findMatch_def)

lemma injectSource_NotFound_iff:
  assumes valid: "\<forall>a\<in>set addrs. truthy (toChecksumAddress ext a)"
    and bc: "\<not> truthy bc"
    and rc: "recompile ext (metadata_s src) (solidity src) w = (Inr cr, w1)"
  shows "fst (injectSource ext repo chn addrs bc src w)
             = Inl (NotFoundError (compilationTarget (metadata_s src)) addrs)
         \<longleftrightarrow> (\<forall>a\<in>set addrs. candidateStatus ext chn (deployedBytecode cr) a = None)"
proof -
  from valid have v: "\<forall>a\<in>set addrs. toChecksumAddress ext a \<noteq> None"
    by (auto simp: truthy_def split: option.splits)
  from scan_result_cases [OF v, of chn "deployedBytecode cr" w1]
  obtain m w2 where
    r: "matchBytecodeToAddress ext chn addrs (deployedBytecode cr) w1 = (Inr m, w2)"
    and d: "(address m = None \<and> status m = None
                 \<and> (\<forall>a\<in>set addrs. candidateStatus ext chn (deployedBytecode cr) a = None))
              \<or> (\<exists>a\<in>set addrs. \<exists>st. address m = toChecksumAddress ext a \<and> status m = Some st
                    \<and> candidateStatus ext chn (deployedBytecode cr) a = Some st)"
    by blast
  have eq: "fst (injectSource ext repo chn addrs bc src w)
               = Inl (NotFoundError (compilationTarget (metadata_s src)) addrs)
            \<longleftrightarrow> \<not> (truthy (address m) \<and> status m \<noteq> None)"
    by (simp add: injectSource_scan [OF bc rc r] storeMatch_NotFound_iff)
  from d show ?thesis
  proof
    assume "address m = None \<and> status m = None
                 \<and> (\<forall>a\<in>set addrs. candidateStatus ext chn (deployedBytecode cr) a = None)"
    then show ?thesis using eq by (simp add: truthy_def)
  next
    assume "\<exists>a\<in>set addrs. \<exists>st. address m = toChecksumAddress ext a \<and> status m = Some st
                    \<and> candidateStatus ext chn (deployedBytecode cr) a = Some st"
    then obtain a st where a: "a \<in> set addrs" and am: "address m = toChecksumAddress ext a"
      and sm: "status m = Some st"
      and cs: "candidateStatus ext chn (deployedBytecode cr) a = Some st" by blast
    from valid a am have "truthy (address m)" by simp
    with sm eq have "fst (injectSource ext repo chn addrs bc src w)
               \<noteq> Inl (NotFoundError (compilationTarget (metadata_s src)) addrs)" by simp
    moreover from a cs have
      "\<not> (\<forall>a\<in>set addrs. candidateStatus ext chn (deployedBytecode cr) a = None)" by auto
    ultimately show ?thesis by simp
  qed
qed

text \<open>
  Claim C4. A candidate whose on-chain read fails (the chain is not in the registry,
  or \<open>getBytecode\<close> throws) is skipped: the scan goes on with the next candidate.
  The scan itself fails only when \<open>toChecksumAddress\<close> rejects a candidate, never
  because of a read. In the pipeline, with candidates that \<open>toChecksumAddress\<close>
  accepts and no pre-fetched bytecode, \<open>NotFoundError\<close> is raised for a recompiled
  source set exactly when no candidate of the whole list matches.
\<close>

theorem scan_survives_read_failures:
  "(toChecksumAddress ext a = Some addr \<and> onChainCode ext chn a = None
      \<longrightarrow> matchBytecodeToAddress ext chn (a # as) c w =
            matchBytecodeToAddress ext chn as c
              (w\<lparr>reads := reads w @ candidateReads ext chn a\<rparr>))
   \<and> (fst (matchBytecodeToAddress ext chn addrs c w) = Inl e
      \<longrightarrow> (\<exists>a\<in>set addrs. toChecksumAddress ext a = None \<and> e = InvalidAddress a))
   \<and> ((\<forall>a\<in>set addrs. truthy (toChecksumAddress ext a)) \<and> \<not> truthy bc
        \<and> recompile ext (metadata_s src) (solidity src) w = (Inr cr, w1)
      \<longrightarrow> (fst (injectSource ext repo chn addrs bc src w)
              = Inl (NotFoundError (compilationTarget (metadata_s src)) addrs)
            \<longleftrightarrow> (\<forall>a\<in>set addrs. candidateStatus ext chn (deployedBytecode cr) a = None)))"
  using scan_skip_failed_read [of ext a addr chn as c w] scan_error [of ext chn addrs c w e]
    injectSource_NotFound_iff [of addrs ext bc src w cr w1 repo chn]
  by blast


theorem scan_survives_read_failures_witness:
  "matchBytecodeToAddress demoExt ''1'' [''0xA1'', ''0xA2''] ''0x6001a1a10002'' world0 =
     matchBytecodeToAddress demoExt ''1'' [''0xA2''] ''0x6001a1a10002''
       (world0\<lparr>reads := [(''1'', ''0xA1'')]\<rparr>)
   \<and> onChainCode demoExt ''1'' ''0xA1'' = None
   \<and> fst (matchBytecodeToAddress demoExt ''1'' [''A5''] ''0x6001a1a10002'' world0)
       = Inl (InvalidAddress ''A5'')
   \<and> toChecksumAddress demoExt ''A5'' = None
   \<and> fst (injectSource demoExt ''repo'' ''1'' [''0xA1'', ''0xA4''] None demoSource world0)
       = Inl (NotFoundError [(''A.sol'', ''A'')] [''0xA1'', ''0xA4''])"
proof -
  have c1: "toChecksumAddress demoExt ''0xA1'' = Some ''0xA1''" by code_simp
  have c4: "toChecksumAddress demoExt ''0xA4'' = Some ''0xA4''" by code_simp
  have c5: "toChecksumAddress demoExt ''A5'' = None" by code_simp
  have o1: "onChainCode demoExt ''1'' ''0xA1'' = None" by code_simp
  have r1: "candidateReads demoExt ''1'' ''0xA1'' = [(''1'', ''0xA1'')]" by code_simp
  have e5: "fst (matchBytecodeToAddress demoExt ''1'' [''A5''] ''0x6001a1a10002'' world0)
              = Inl (InvalidAddress ''A5'')" by code_simp
  have rc: "recompile demoExt (metadata_s demoSource) (solidity demoSource) world0
              = (Inr demoResult, world0\<lparr>compilations := 1\<rparr>)" by code_simp
  have s1: "candidateStatus demoExt ''1'' (deployedBytecode demoResult) ''0xA1'' = None"
    by code_simp
  have s4: "candidateStatus demoExt ''1'' (deployedBytecode demoResult) ''0xA4'' = None"
    by code_simp
  have t: "compilationTarget (metadata_s demoSource) = [(''A.sol'', ''A'')]" by code_simp
  have w0: "reads world0 = []" by (simp add: world0_def)
  show ?thesis
    using c1 c4 c5 o1 r1 e5 rc s1 s4 t w0
      scan_survives_read_failures
        [of demoExt "''0xA1''" "''0xA1''" "''1''" "[''0xA2'']" "''0x6001a1a10002''" world0
            "[''0xA1'', ''0xA4'']" "InvalidAddress ''A5''" None demoSource demoResult
            "world0\<lparr>compilations := 1\<rparr>" "''repo''"]
      scan_survives_read_failures
        [of demoExt "''0xA1''" "''0xA1''" "''1''" "[''0xA2'']" "''0x6001a1a10002''" world0
            "[''A5'']" "InvalidAddress ''A5''" None demoSource demoResult
            "world0\<lparr>compilations := 1\<rparr>" "''repo''"]
    by (simp add: truthy_def)
qed

section \<open>Properties of the pipeline\<close>

lemma save_fields [simp]:
  "reads (save segs t w) = reads w"
  "writes (save segs t w) = writes w @ [(segs, t)]"
  "compilations (save segs t w) = compilations w"
  by (simp_all add: save_def)

lemma saveSources_reads [simp]:
  "reads (saveSources repo kind chn addr srcs w) = reads w"
  by (induction srcs arbitrary: w) auto

lemma saveSources_compilations [simp]:
  "compilations (saveSources repo kind chn addr srcs w) = compilations w"
  by (induction srcs arbitrary: w) auto

lemma saveSources_writes:
  "writes (saveSources repo kind chn addr srcs w) =
     writes w @ map (\<lambda>(p, t). ([repo, ''contracts'', kind, chn, addr, ''sources'', sanitizePath p], t)) srcs"
  by (induction srcs arbitrary: w) auto

lemma storePartialMatchData_writes:
  "writes (storePartialMatchData repo chn addr cr srcs w) =
     writes w @ ([repo, ''contracts'', ''partial_match'', chn, addr, ''/metadata.json''], metadata cr)
       # map (\<lambda>(p, t). ([repo, ''contracts'', ''partial_match'', chn, addr, ''sources'', sanitizePath p], t)) srcs"
  by (simp add: storePartialMatchData_def saveSources_writes)

lemma storePartialMatchData_reads [simp]:
  "reads (storePartialMatchData repo chn addr cr srcs w) = reads w"
  by (simp add: storePartialMatchData_def)

lemma storePerfectMatchData_reads [simp]:
  "reads (snd (storePerfectMatchData ext repo chn addr cr srcs w)) = reads w"
  by (simp add: storePerfectMatchData_def split: option.splits sum.splits)

lemma recompile_reads [simp]:
  "reads (snd (recompile ext md srcs w)) = reads w"
  by (simp add: recompile_def split: sum.splits prod.splits)

lemma recompile_writes [simp]:
  "writes (snd (recompile ext md srcs w)) = writes w"
  by (simp add: recompile_def split: sum.splits prod.splits)

lemma storeMatch_reads [simp]:
  "reads (snd (storeMatch ext repo chn addrs target cr srcs m w)) = reads w"
proof (cases "storePerfectMatchData ext repo chn (case address m of Some a \<Rightarrow> a | None \<Rightarrow> []) cr srcs w")
  case (Pair r w')
  have "reads w' = reads w"
    using storePerfectMatchData_reads [of ext repo chn "case address m of Some a \<Rightarrow> a | None \<Rightarrow> []" cr srcs w] Pair
    by simp
  with Pair show ?thesis
    by (auto simp: storeMatch_def split: option.splits sum.splits)
qed

lemma findMatch_prefetched:
  assumes "truthy bc" and "toChecksumAddress ext a = Some addr"
  shows "findMatch ext chn (a # rest) bc compiled w =
           (Inr \<lparr>address = Some addr, status = compareBytecodes bc compiled\<rparr>, w)"
  using assms by (simp add: findMatch_def)

lemma findMatch_prefetched_world:
  assumes "truthy bc"
  shows "snd (findMatch ext chn addrs bc compiled w) = w"
  using assms by (simp add: findMatch_def split: list.splits option.splits)

lemma injectSource_prefetched_reads:
  assumes "truthy bc"
  shows "reads (snd (injectSource ext repo chn addrs bc src w)) = reads w"
proof -
  obtain r w1 where rc: "recompile ext (metadata_s src) (solidity src) w = (r, w1)"
    by (cases "recompile ext (metadata_s src) (solidity src) w")
  have w1: "reads w1 = reads w"
    using recompile_reads [of ext "metadata_s src" "solidity src" w] rc by simp
  show ?thesis
  proof (cases r)
    case (Inl e)
    with rc w1 show ?thesis by (simp add: injectSource_def)
  next
    case (Inr cr)
    obtain fm w2 where f: "findMatch ext chn addrs bc (deployedBytecode cr) w1 = (fm, w2)"
      by (cases "findMatch ext chn addrs bc (deployedBytecode cr) w1")
    have w2: "w2 = w1"
      using findMatch_prefetched_world [OF assms, of ext chn addrs "deployedBytecode cr" w1] f
      by simp
    show ?thesis
    proof (cases fm)
      case (Inl e)
      with rc Inr f w1 w2 show ?thesis by (simp add: injectSource_def)
    next
      case m: (Inr m)
      with rc Inr f w1 w2 show ?thesis by (simp add: injectSource_def)
    qed
  qed
qed

lemma injectLoop_prefetched_reads:
  assumes "truthy bc"
  shows "reads (snd (injectLoop ext repo chn addrs bc fs m w)) = reads w"
proof (induction fs arbitrary: m w)
  case Nil
  then show ?case by simp
next
  case (Cons src rest)
  obtain r w' where s: "injectSource ext repo chn addrs bc src w = (r, w')"
    by (cases "injectSource ext repo chn addrs bc src w")
  have w': "reads w' = reads w"
    using injectSource_prefetched_reads [OF assms, of ext repo chn addrs src w] s by simp
  show ?case
  proof (cases r)
    case (Inl e)
    with s w' show ?thesis by simp
  next
    case (Inr m')
    with s w' Cons.IH [of m' w'] show ?thesis by simp
  qed
qed

lemma inject_prefetched_reads:
  assumes "truthy (bytecode inputData)"
  shows "reads (snd (inject ext inputData w)) = reads w"
  by (simp add: inject_def injectLoop_prefetched_reads [OF assms] split: sum.splits)

lemma injectSource_prefetched:
  assumes "truthy bc" and "toChecksumAddress ext a = Some addr"
    and "recompile ext (metadata_s src) (solidity src) w = (Inr cr, w1)"
  shows "injectSource ext repo chn (a # rest) bc src w =
           storeMatch ext repo chn (a # rest) (compilationTarget (metadata_s src)) cr (solidity src)
             \<lparr>address = Some addr, status = compareBytecodes bc (deployedBytecode cr)\<rparr> w1"
  using assms(3) by (simp add: injectSource_def findMatch_prefetched [OF assms(1,2)])

lemma nonNull_map_Some: "nonNull (map Some xs) = xs"
  by (induction xs) (simp_all add: nonNull_def List.map_filter_simps)

lemma validateAddresses_map_Some: "xs \<noteq> [] \<Longrightarrow> validateAddresses (map Some xs) = Inr ()"
  by (auto simp: validateAddresses_def list_ex_iff)

lemma injectLoop_single:
  "injectLoop ext repo chn addrs bc [src] m w = injectSource ext repo chn addrs bc src w"
proof (cases "injectSource ext repo chn addrs bc src w")
  case (Pair r w')
  then show ?thesis by (cases r) simp_all
qed

lemma inject_single:
  assumes "addresses inputData = map Some (a # rest)"
    and "chain inputData = Some c" and "c \<noteq> []"
    and "files inputData = [src]"
  shows "inject ext inputData w =
           injectSource ext (repository inputData) c (a # rest) (bytecode inputData) src w"
proof -
  have v: "validateAddresses (addresses inputData) = Inr ()"
    unfolding assms(1) by (rule validateAddresses_map_Some) simp
  have n: "nonNull (addresses inputData) = a # rest"
    unfolding assms(1) by (rule nonNull_map_Some)
  have c: "validateChain (chain inputData) = Inr ()"
    using assms(2,3) by (simp add: validateChain_def truthy_def)
  have k: "chainOf (chain inputData) = c"
    using assms(2) by (simp add: chainOf_def)
  show ?thesis
    unfolding inject_def v n c k assms(4) by (simp add: injectLoop_single del: injectLoop.simps)
qed

lemma inject_prefetched_single:
  assumes "addresses inputData = map Some (a # rest)"
    and "chain inputData = Some c" and "c \<noteq> []"
    and "files inputData = [src]"
    and "truthy (bytecode inputData)"
    and "toChecksumAddress ext a = Some addr"
    and "recompile ext (metadata_s src) (solidity src) w = (Inr cr, w1)"
  shows "inject ext inputData w =
           storeMatch ext (repository inputData) c (a # rest)
             (compilationTarget (metadata_s src)) cr (solidity src)
             \<lparr>address = Some addr,
               status = compareBytecodes (bytecode inputData) (deployedBytecode cr)\<rparr> w1"
  unfolding inject_single [OF assms(1-4)]
  by (rule injectSource_prefetched [OF assms(5-7)])

text \<open>
  Claim C9. When \<open>inputData.bytecode\<close> is given (and not empty), the comparison step
  does not scan: the match is built from one \<open>compareBytecodes\<close> of the pre-fetched
  bytecode against the recompiled deployed bytecode, together with the first candidate
  address (checksum-normalised), and the world is left as it was; the loop body then
  stores or rejects that match; a whole run of \<open>inject\<close> makes no chain read; and
  \<open>inject\<close> on one source set, with addresses that are not \<open>null\<close> and a chain
  name, returns what storing that match returns.
\<close>

theorem inject_prefetched_bytecode:
  "(truthy bc \<and> toChecksumAddress ext a = Some addr
      \<longrightarrow> findMatch ext chn (a # rest) bc compiled w =
            (Inr \<lparr>address = Some addr, status = compareBytecodes bc compiled\<rparr>, w))
   \<and> (truthy bc \<and> toChecksumAddress ext a = Some addr
        \<and> recompile ext (metadata_s src) (solidity src) w = (Inr cr, w1)
      \<longrightarrow> injectSource ext repo chn (a # rest) bc src w =
            storeMatch ext repo chn (a # rest) (compilationTarget (metadata_s src)) cr
              (solidity src)
              \<lparr>address = Some addr, status = compareBytecodes bc (deployedBytecode cr)\<rparr> w1)
   \<and> (truthy (bytecode inputData) \<longrightarrow> reads (snd (inject ext inputData w)) = reads w)
   \<and> (addresses inputData = map Some (a # rest) \<and> chain inputData = Some c \<and> c \<noteq> []
        \<and> files inputData = [src] \<and> truthy (bytecode inputData)
        \<and> toChecksumAddress ext a = Some addr
        \<and> recompile ext (metadata_s src) (solidity src) w = (Inr cr, w1)
      \<longrightarrow> inject ext inputData w =
            storeMatch ext (repository inputData) c (a # rest)
              (compilationTarget (metadata_s src)) cr (solidity src)
              \<lparr>address = Some addr,
                status = compareBytecodes (bytecode inputData) (deployedBytecode cr)\<rparr> w1)"
  using findMatch_prefetched [of bc ext a addr chn rest compiled w]
    injectSource_prefetched [of bc ext a addr src w cr w1 repo chn rest]
    inject_prefetched_reads [of inputData ext w]
    inject_prefetched_single [of inputData a rest c src ext addr w cr w1]
  by blast

lemma validateAddresses_null:
  "None \<in> set addrs \<Longrightarrow> validateAddresses addrs = Inl MissingAddress"
  by (auto simp: validateAddresses_def list_ex_iff)

text \<open>
  Claim C10. If the address list holds a \<open>null\<close> element, also when it holds addresses
  as well, \<open>inject\<close> fails with \<open>Missing address for submitted sources/metadata\<close> and
  the world is unchanged: nothing has been compiled, read or written.
\<close>

theorem inject_null_address:
  "None \<in> set (addresses inputData) \<longrightarrow> inject ext inputData w = (Inl MissingAddress, w)"
  by (simp add: inject_def validateAddresses_null)

theorem inject_prefetched_bytecode_witness:
  "truthy (Some ''0x6001b2b20002'')
   \<and> findMatch demoExt ''1'' [''0xA1''] (Some ''0x6001b2b20002'') ''0x6001a1a10002'' world0 =
       (Inr \<lparr>address = Some ''0xA1'', status = Some Partial\<rparr>, world0)
   \<and> injectSource demoExt ''repo'' ''1'' [''0xA1''] (Some ''0x6001b2b20002'') demoSource world0 =
       storeMatch demoExt ''repo'' ''1'' [''0xA1''] [(''A.sol'', ''A'')] demoResult
         [(''A.sol'', ''contract A {}'')]
         \<lparr>address = Some ''0xA1'', status = Some Partial\<rparr> (world0\<lparr>compilations := 1\<rparr>)
   \<and> reads (snd (inject demoExt (demoInput [Some ''0xA1''] (Some ''0x6001b2b20002'')) world0)) = []
   \<and> inject demoExt (demoInput [Some ''0xA1''] (Some ''0x6001b2b20002'')) world0 =
       (Inr \<lparr>address = Some ''0xA1'', status = Some Partial\<rparr>,
        \<lparr>reads = [],
         writes = [([''repo'', ''contracts'', ''partial_match'', ''1'', ''0xA1'', ''/metadata.json''],
                    ''{}''),
                   ([''repo'', ''contracts'', ''partial_match'', ''1'', ''0xA1'', ''sources'',
                     ''A.sol''], ''contract A {}'')],
         compilations = 1\<rparr>)
   \<and> inject demoExt (demoInput [Some ''0xA1''] (Some ''0x6002a1a10002'')) world0 =
       (Inl (NotFoundError [(''A.sol'', ''A'')] [''0xA1'']),
        \<lparr>reads = [], writes = [], compilations = 1\<rparr>)"
proof -
  have t: "truthy (Some ''0x6001b2b20002'')" by code_simp
  have t2: "truthy (Some ''0x6002a1a10002'')" by code_simp
  have c1: "toChecksumAddress demoExt ''0xA1'' = Some ''0xA1''" by code_simp
  have rc: "recompile demoExt (metadata_s demoSource) (solidity demoSource) world0
              = (Inr demoResult, world0\<lparr>compilations := 1\<rparr>)" by code_simp
  have cmp: "compareBytecodes (Some ''0x6001b2b20002'') ''0x6001a1a10002'' = Some Partial"
    by code_simp
  have cmp2: "compareBytecodes (Some ''0x6002a1a10002'') ''0x6001a1a10002'' = None"
    by code_simp
  have d: "deployedBytecode demoResult = ''0x6001a1a10002''" by code_simp
  have tg: "compilationTarget (metadata_s demoSource) = [(''A.sol'', ''A'')]" by code_simp
  have sl: "solidity demoSource = [(''A.sol'', ''contract A {}'')]" by code_simp
  have i: "\<And>bc. addresses (demoInput [Some ''0xA1''] bc) = map Some [''0xA1'']
            \<and> chain (demoInput [Some ''0xA1''] bc) = Some ''1''
            \<and> files (demoInput [Some ''0xA1''] bc) = [demoSource]
            \<and> bytecode (demoInput [Some ''0xA1''] bc) = bc
            \<and> repository (demoInput [Some ''0xA1''] bc) = ''repo''"
    by (simp add: demoInput_def)
  have s1: "storeMatch demoExt ''repo'' ''1'' [''0xA1''] [(''A.sol'', ''A'')] demoResult
         [(''A.sol'', ''contract A {}'')]
         \<lparr>address = Some ''0xA1'', status = Some Partial\<rparr> (world0\<lparr>compilations := 1\<rparr>) =
       (Inr \<lparr>address = Some ''0xA1'', status = Some Partial\<rparr>,
        \<lparr>reads = [],
         writes = [([''repo'', ''contracts'', ''partial_match'', ''1'', ''0xA1'', ''/metadata.json''],
                    ''{}''),
                   ([''repo'', ''contracts'', ''partial_match'', ''1'', ''0xA1'', ''sources'',
                     ''A.sol''], ''contract A {}'')],
         compilations = 1\<rparr>)" by code_simp
  have s2: "storeMatch demoExt ''repo'' ''1'' [''0xA1''] [(''A.sol'', ''A'')] demoResult
         [(''A.sol'', ''contract A {}'')]
         \<lparr>address = Some ''0xA1'', status = None\<rparr> (world0\<lparr>compilations := 1\<rparr>) =
       (Inl (NotFoundError [(''A.sol'', ''A'')] [''0xA1'']),
        \<lparr>reads = [], writes = [], compilations = 1\<rparr>)" by code_simp
  have w0: "reads world0 = []" by (simp add: world0_def)
  show ?thesis
    using t t2 c1 rc cmp cmp2 d tg sl i s1 s2 w0
      inject_prefetched_bytecode
        [of "Some ''0x6001b2b20002''" demoExt "''0xA1''" "''0xA1''" "''1''" "[]"
            "''0x6001a1a10002''" world0 demoSource demoResult "world0\<lparr>compilations := 1\<rparr>"
            "''repo''" "demoInput [Some ''0xA1''] (Some ''0x6001b2b20002'')" "''1''"]
      inject_prefetched_bytecode
        [of "Some ''0x6002a1a10002''" demoExt "''0xA1''" "''0xA1''" "''1''" "[]"
            "''0x6001a1a10002''" world0 demoSource demoResult "world0\<lparr>compilations := 1\<rparr>"
            "''repo''" "demoInput [Some ''0xA1''] (Some ''0x6002a1a10002'')" "''1''"]
    by simp
qed

theorem inject_null_address_witness:
  "None \<in> set (addresses (demoInput [Some ''0xA3'', None] None))
   \<and> inject demoExt (demoInput [Some ''0xA3'', None] None) world0 = (Inl MissingAddress, world0)"
proof -
  have a: "addresses (demoInput [Some ''0xA3'', None] None) = [Some ''0xA3'', None]"
    by code_simp
  show ?thesis
    using a inject_null_address [of "demoInput [Some ''0xA3'', None] None" demoExt world0]
    by simp
qed

lemma scan_writes [simp]:
  "writes (snd (matchBytecodeToAddress ext chn addrs c w)) = writes w"
proof (induction addrs arbitrary: w)
  case Nil
  then show ?case by simp
next
  case (Cons a as)
  show ?case
  proof (cases "toChecksumAddress ext a")
    case None
    then show ?thesis by simp
  next
    case (Some addr)
    show ?thesis
      using Cons.IH [of "w\<lparr>reads := reads w @ candidateReads ext chn a\<rparr>"]
      by (simp add: scan_step [OF Some] del: matchBytecodeToAddress.simps split: option.splits)
  qed
qed

lemma findMatch_writes [simp]:
  "writes (snd (findMatch ext chn addrs bc c w)) = writes w"
  by (simp add: findMatch_def split: list.splits option.splits)

lemma storeMatch_partial:
  assumes "storeMatch ext repo chn addrs target cr srcs m w = (Inr m', w')"
    and "status m' = Some Partial"
  shows "\<exists>a. address m' = Some a \<and> m' = m
           \<and> w' = storePartialMatchData repo chn a cr srcs w"
  using assms
  by (auto simp: storeMatch_def split: option.splits if_splits prod.splits sum.splits)

lemma injectSource_partial:
  assumes "injectSource ext repo chn addrs bc src w = (Inr m, w')"
    and "status m = Some Partial"
  shows "\<exists>a cr. address m = Some a
           \<and> fst (recompile ext (metadata_s src) (solidity src) w) = Inr cr
           \<and> writes w' = writes w
               @ ([repo, ''contracts'', ''partial_match'', chn, a, ''/metadata.json''], metadata cr)
               # map (\<lambda>(p, t). ([repo, ''contracts'', ''partial_match'', chn, a, ''sources'',
                                  sanitizePath p], t)) (solidity src)"
proof -
  obtain r w1 where rc: "recompile ext (metadata_s src) (solidity src) w = (r, w1)"
    by (cases "recompile ext (metadata_s src) (solidity src) w")
  have w1: "writes w1 = writes w"
    using recompile_writes [of ext "metadata_s src" "solidity src" w] rc by simp
  from assms(1) rc obtain cr where cr: "r = Inr cr"
    by (cases r) (auto simp: injectSource_def)
  obtain fm w2 where f: "findMatch ext chn addrs bc (deployedBytecode cr) w1 = (fm, w2)"
    by (cases "findMatch ext chn addrs bc (deployedBytecode cr) w1")
  have w2: "writes w2 = writes w1"
    using findMatch_writes [of ext chn addrs bc "deployedBytecode cr" w1] f by simp
  from assms(1) rc cr f obtain m0 where m0: "fm = Inr m0"
    by (cases fm) (auto simp: injectSource_def)
  from assms(1) rc cr f m0
  have "storeMatch ext repo chn addrs (compilationTarget (metadata_s src)) cr (solidity src) m0 w2
          = (Inr m, w')"
    by (simp add: injectSource_def)
  from storeMatch_partial [OF this assms(2)]
  obtain a where a: "address m = Some a"
    and w': "w' = storePartialMatchData repo chn a cr (solidity src) w2" by blast
  have "writes w' = writes w
               @ ([repo, ''contracts'', ''partial_match'', chn, a, ''/metadata.json''], metadata cr)
               # map (\<lambda>(p, t). ([repo, ''contracts'', ''partial_match'', chn, a, ''sources'',
                                  sanitizePath p], t)) (solidity src)"
    using w' w1 w2 by (simp add: storePartialMatchData_writes)
  with a rc cr show ?thesis by simp
qed

text \<open>
  The arguments of \<open>path.join\<close> for the files that a partial match saves: the root,
  \<open>contracts\<close>, \<open>partial_match\<close>, the chain and the address, then
  \<open>/metadata.json\<close> or \<open>sources\<close> and the sanitized source name.
\<close>

lemma partial_match_join_arguments:
  assumes "injectSource ext repo chn addrs bc src w = (Inr m, w')"
    and "status m = Some Partial"
  shows "\<exists>a cr. address m = Some a
           \<and> fst (recompile ext (metadata_s src) (solidity src) w) = Inr cr
           \<and> writes w' = writes w
               @ ([repo, ''contracts'', ''partial_match'', chn, a, ''/metadata.json''], metadata cr)
               # map (\<lambda>(p, t). ([repo, ''contracts'', ''partial_match'', chn, a, ''sources'',
                                  sanitizePath p], t)) (solidity src)
           \<and> (\<forall>wr\<in>set (drop (length (writes w)) (writes w')).
                 take 5 (fst wr) = [repo, ''contracts'', ''partial_match'', chn, a])"
proof -
  from injectSource_partial [OF assms]
  obtain a cr where a: "address m = Some a"
    and rc: "fst (recompile ext (metadata_s src) (solidity src) w) = Inr cr"
    and wr: "writes w' = writes w
               @ ([repo, ''contracts'', ''partial_match'', chn, a, ''/metadata.json''], metadata cr)
               # map (\<lambda>(p, t). ([repo, ''contracts'', ''partial_match'', chn, a, ''sources'',
                                  sanitizePath p], t)) (solidity src)"
    by blast
  have "\<forall>wr\<in>set (drop (length (writes w)) (writes w')).
          take 5 (fst wr) = [repo, ''contracts'', ''partial_match'', chn, a]"
    unfolding wr by auto
  with a rc wr show ?thesis by blast
qed

text \<open>
  Claim C8 does not hold of the code: the sanitizer leaves every dot segment after the
  first in a source name (the defect of claim C6), and \<open>path.join\<close> resolves them.
  A run of \<open>inject\<close> on one source set that ends with a partial match at \<open>0xA2\<close>
  saves the source named \<open>a/../../../../../../../full_match/1/0xA2/metadata.json\<close> at the
  \<open>full_match\<close> metadata path of that address, and another one at a content-address
  path.
\<close>

theorem partial_match_escapes:
  "fst (inject demoExt
          \<lparr>repository = ''repo'', chain = Some ''1'', addresses = [Some ''0xA2''],
           files = [demoTraversal], bytecode = None\<rparr> world0) =
     Inr \<lparr>address = Some ''0xA2'', status = Some Partial\<rparr>
   \<and> savedPaths (snd (inject demoExt
          \<lparr>repository = ''repo'', chain = Some ''1'', addresses = [Some ''0xA2''],
           files = [demoTraversal], bytecode = None\<rparr> world0)) =
     [''repo/contracts/partial_match/1/0xA2/metadata.json'',
      ''repo/contracts/full_match/1/0xA2/metadata.json'',
      ''repo/ipfs/Qm'']"
  by code_simp

section \<open>Properties of the repository writes\<close>








lemma replaceDotSegment_chars:
  "set (replaceDotSegment atStart s) \<subseteq> insert CHR ''_'' (set s)"
proof (induction s arbitrary: atStart)
  case Nil
  then show ?case by simp
next
  case (Cons c cs)
  have d: "\<And>n xs. set (drop n xs) \<subseteq> set (xs :: string)" by (rule set_drop_subset)
  show ?case
    using Cons.IH [of False] d [of _ cs] d [of _ "c # cs"]
    by (auto split: option.splits if_splits simp del: drop_Suc_Cons dest: in_set_dropD)
qed

lemma sanitizePath_safe_chars: "\<forall>c\<in>set (sanitizePath p). isSafeChar c"
proof
  fix c assume "c \<in> set (sanitizePath p)"
  then have "c = CHR ''_'' \<or> c \<in> set (replaceUnsafe p)"
    using replaceDotSegment_chars [of True "replaceUnsafe p"] by (auto simp: sanitizePath_def)
  moreover have "isSafeChar CHR ''_''" by (simp add: isSafeChar_def)
  moreover have "\<forall>c\<in>set (replaceUnsafe p). isSafeChar c"
    by (auto simp: replaceUnsafe_def isSafeChar_def)
  ultimately show "isSafeChar c" by auto
qed

text \<open>
  Claim C6 does not hold of the code: the second \<open>replace\<close> has no \<open>g\<close> flag, so only
  the leftmost dot segment is replaced. The source name \<open>a/../b/../c\<close> is stored as
  \<open>a_b/../c\<close>, which still holds the segment \<open>..\<close>.
\<close>

theorem sanitizePath_later_dot_segment:
  "sanitizePath ''a/../b/../c'' = ''a_b/../c''
   \<and> hasDotSegment (sanitizePath ''a/../b/../c'')
   \<and> writes (storePartialMatchData ''repo'' ''1'' ''0xA2'' demoResult
               [(''a/../b/../c'', ''x'')] world0) =
       [([''repo'', ''contracts'', ''partial_match'', ''1'', ''0xA2'', ''/metadata.json''], ''{}''),
        ([''repo'', ''contracts'', ''partial_match'', ''1'', ''0xA2'', ''sources'', ''a_b/../c''],
         ''x'')]"
  by code_simp

section \<open>Properties of source assembly\<close>

lemma set_forInOrder: "set (forInOrder xs) = set xs"
  by (auto simp: forInOrder_def)

lemma distinct_forInOrder:
  assumes "distinct (map fst xs)"
  shows "distinct (map fst (forInOrder xs))"
proof -
  from assms have dx: "distinct xs" and inj: "inj_on fst (set xs)"
    by (simp_all add: distinct_map)
  have "distinct (forInOrder xs)"
    using dx by (auto simp: forInOrder_def)
  moreover have "inj_on fst (set (forInOrder xs))"
    using inj by (simp add: set_forInOrder)
  ultimately show ?thesis by (simp add: distinct_map)
qed

lemma find_snoc:
  "find P (xs @ [x]) = (case find P xs of Some y \<Rightarrow> Some y | None \<Rightarrow> if P x then Some x else None)"
  by (induction xs) auto

lemma storeByHash_fold:
  "fold (\<lambda>f byHash. if keccak ext f = ''__proto__'' then byHash else byHash(keccak ext f \<mapsto> f))
     fs m0 h =
     (if h = ''__proto__'' then m0 h
      else (case find (\<lambda>f. keccak ext f = h) (rev fs) of Some f \<Rightarrow> Some f | None \<Rightarrow> m0 h))"
  by (induction fs arbitrary: m0) (auto simp: find_snoc split: option.splits)

lemma storeByHash_find:
  "storeByHash ext fs h =
     (if h = ''__proto__'' then None else find (\<lambda>f. keccak ext f = h) (rev fs))"
  by (simp add: storeByHash_def storeByHash_fold split: option.splits)

lemma find_Some_set: "find P xs = Some x \<Longrightarrow> x \<in> set xs \<and> P x"
  by (induction xs) (auto split: if_splits)

lemma storeByHash_Some:
  "storeByHash ext fs h = Some f \<Longrightarrow> f \<in> set fs \<and> keccak ext f = h"
  using find_Some_set [of "\<lambda>f. keccak ext f = h" "rev fs" f]
  by (simp add: storeByHash_find split: if_splits)

lemma storeByHash_None_iff:
  "h \<noteq> ''__proto__'' \<Longrightarrow>
     storeByHash ext fs h = None \<longleftrightarrow> \<not> list_ex (\<lambda>f. keccak ext f = h) fs"
  by (auto simp: storeByHash_find find_None_iff list_ex_iff)

lemma proto_member: "''__proto__'' \<in> set objectPrototypeMembers"
  by (simp add: objectPrototypeMembers_def)

lemma getKey_own:
  "h \<notin> set objectPrototypeMembers \<Longrightarrow> getKey obj h = map_option Str (obj h)"
  using proto_member by (auto simp: getKey_def split: option.splits)

lemma resolveContent_inline:
  assumes "content e = Some c" and "c \<noteq> []"
  shows "resolveContent ext bh n e =
           (if keccak ext c = keccak256 e then Inr (Str c) else Inl (InvalidContent n))"
  using assms by (simp add: resolveContent_def Let_def)

lemma resolveContent_lookup:
  assumes "content e = None" and "keccak256 e \<notin> set objectPrototypeMembers"
  shows "resolveContent ext bh n e =
           (case bh (keccak256 e) of
              None \<Rightarrow> Inl (SourceNotFound n (keccak256 e))
            | Some c \<Rightarrow> if c = [] then Inl (SourceNotFound n (keccak256 e)) else Inr (Str c))"
  using assms by (simp add: resolveContent_def Let_def getKey_own split: option.splits)

lemma ordinary_lookup:
  assumes o: "ordinaryEntry ext e" and c: "content e = None"
  shows "resolveContent ext (storeByHash ext fs) n e =
           (if list_ex (\<lambda>f. keccak ext f = keccak256 e) fs
            then (case storeByHash ext fs (keccak256 e) of
                    Some f \<Rightarrow> Inr (Str f) | None \<Rightarrow> Inl (SourceNotFound n (keccak256 e)))
            else Inl (SourceNotFound n (keccak256 e)))"
  and "list_ex (\<lambda>f. keccak ext f = keccak256 e) fs \<Longrightarrow>
         \<exists>f. storeByHash ext fs (keccak256 e) = Some f \<and> f \<noteq> [] \<and> f \<in> set fs
             \<and> keccak ext f = keccak256 e"
proof -
  from o c have m: "keccak256 e \<notin> set objectPrototypeMembers"
    and z: "keccak256 e \<noteq> keccak ext []" by (simp_all add: ordinaryEntry_def)
  from m proto_member have np: "keccak256 e \<noteq> ''__proto__''" by auto
  have ne: "f \<noteq> []" if "storeByHash ext fs (keccak256 e) = Some f" for f
    using storeByHash_Some [OF that] z by auto
  show "resolveContent ext (storeByHash ext fs) n e =
           (if list_ex (\<lambda>f. keccak ext f = keccak256 e) fs
            then (case storeByHash ext fs (keccak256 e) of
                    Some f \<Rightarrow> Inr (Str f) | None \<Rightarrow> Inl (SourceNotFound n (keccak256 e)))
            else Inl (SourceNotFound n (keccak256 e)))"
    using storeByHash_None_iff [OF np, of ext fs] ne
    by (auto simp: resolveContent_lookup [OF c m] split: option.splits)
  show "\<exists>f. storeByHash ext fs (keccak256 e) = Some f \<and> f \<noteq> [] \<and> f \<in> set fs
             \<and> keccak ext f = keccak256 e"
    if "list_ex (\<lambda>f. keccak ext f = keccak256 e) fs"
  proof -
    from that storeByHash_None_iff [OF np, of ext fs]
    obtain f where f: "storeByHash ext fs (keccak256 e) = Some f" by auto
    with ne [OF f] storeByHash_Some [OF f] show ?thesis by simp
  qed
qed

lemma resolveContent_verified:
  assumes o: "ordinaryEntry ext e"
  shows "(\<exists>v. resolveContent ext (storeByHash ext fs) n e = Inr v) \<longleftrightarrow> entryVerified ext fs e"
proof (cases "content e")
  case None
  show ?thesis
    using ordinary_lookup(2) [OF o None, of fs]
    by (auto simp: ordinary_lookup(1) [OF o None] entryVerified_def None)
next
  case (Some c)
  with o have "c \<noteq> []" by (auto simp: ordinaryEntry_def)
  with Some show ?thesis
    by (simp add: resolveContent_inline entryVerified_def)
qed

lemma resolveContent_Inr:
  assumes o: "ordinaryEntry ext e"
    and r: "resolveContent ext (storeByHash ext fs) n e = Inr v"
  shows "\<exists>c. v = Str c \<and> keccak ext c = keccak256 e
           \<and> (content e = Some c \<or> content e = None \<and> c \<in> set fs)"
proof (cases "content e")
  case None
  show ?thesis
    using r ordinary_lookup(2) [OF o None, of fs]
    by (auto simp: ordinary_lookup(1) [OF o None] None split: if_splits)
next
  case (Some c)
  with o have "c \<noteq> []" by (auto simp: ordinaryEntry_def)
  with Some r show ?thesis
    by (auto simp: resolveContent_inline split: if_splits)
qed

lemma resolveContent_Invalid_iff:
  assumes o: "ordinaryEntry ext e"
  shows "resolveContent ext (storeByHash ext fs) n e = Inl (InvalidContent n')
           \<longleftrightarrow> n' = n \<and> (\<exists>c. content e = Some c \<and> keccak ext c \<noteq> keccak256 e)"
proof (cases "content e")
  case None
  show ?thesis
    by (auto simp: ordinary_lookup(1) [OF o None] None split: option.splits)
next
  case (Some c)
  with o have "c \<noteq> []" by (auto simp: ordinaryEntry_def)
  with Some show ?thesis
    by (auto simp: resolveContent_inline)
qed

lemma resolveContent_NotFound_iff:
  assumes o: "ordinaryEntry ext e"
  shows "resolveContent ext (storeByHash ext fs) n e = Inl (SourceNotFound n' h)
           \<longleftrightarrow> n' = n \<and> h = keccak256 e \<and> content e = None
               \<and> \<not> list_ex (\<lambda>f. keccak ext f = h) fs"
proof (cases "content e")
  case None
  show ?thesis
    using ordinary_lookup(2) [OF o None, of fs]
    by (auto simp: ordinary_lookup(1) [OF o None] None)
next
  case (Some c)
  with o have "c \<noteq> []" by (auto simp: ordinaryEntry_def)
  with Some show ?thesis
    by (simp add: resolveContent_inline)
qed

lemma rearrangeLoop_Inl_iff:
  "rearrangeLoop ext bh entries acc = Inl err \<longleftrightarrow>
     (\<exists>pre n e post. entries = pre @ (n, e) # post
        \<and> (\<forall>(n', e')\<in>set pre. \<exists>c. resolveContent ext bh n' e' = Inr c)
        \<and> resolveContent ext bh n e = Inl err)"
proof (induction entries arbitrary: acc)
  case Nil
  then show ?case by simp
next
  case (Cons x rest)
  obtain n0 e0 where x: "x = (n0, e0)" by (cases x)
  show ?case
  proof (cases "resolveContent ext bh n0 e0")
    case (Inl err0)
    have "(\<exists>pre n e post. x # rest = pre @ (n, e) # post
        \<and> (\<forall>(n', e')\<in>set pre. \<exists>c. resolveContent ext bh n' e' = Inr c)
        \<and> resolveContent ext bh n e = Inl err) \<longleftrightarrow> err0 = err"
    proof
      assume "\<exists>pre n e post. x # rest = pre @ (n, e) # post
        \<and> (\<forall>(n', e')\<in>set pre. \<exists>c. resolveContent ext bh n' e' = Inr c)
        \<and> resolveContent ext bh n e = Inl err"
      then obtain pre n e post where d: "x # rest = pre @ (n, e) # post"
        and p: "\<forall>(n', e')\<in>set pre. \<exists>c. resolveContent ext bh n' e' = Inr c"
        and r: "resolveContent ext bh n e = Inl err" by blast
      show "err0 = err"
      proof (cases pre)
        case Nil
        with d x have "n = n0 \<and> e = e0" by simp
        with r Inl show ?thesis by simp
      next
        case (Cons y ys)
        with d x have "y = (n0, e0)" by simp
        with p Cons have "\<exists>c. resolveContent ext bh n0 e0 = Inr c" by auto
        with Inl show ?thesis by simp
      qed
    next
      assume "err0 = err"
      with Inl x have "x # rest = [] @ (n0, e0) # rest
        \<and> (\<forall>(n', e')\<in>set []. \<exists>c. resolveContent ext bh n' e' = Inr c)
        \<and> resolveContent ext bh n0 e0 = Inl err" by simp
      then show "\<exists>pre n e post. x # rest = pre @ (n, e) # post
        \<and> (\<forall>(n', e')\<in>set pre. \<exists>c. resolveContent ext bh n' e' = Inr c)
        \<and> resolveContent ext bh n e = Inl err" by blast
    qed
    with Inl x show ?thesis by simp
  next
    case (Inr c0)
    have "(\<exists>pre n e post. x # rest = pre @ (n, e) # post
        \<and> (\<forall>(n', e')\<in>set pre. \<exists>c. resolveContent ext bh n' e' = Inr c)
        \<and> resolveContent ext bh n e = Inl err)
      \<longleftrightarrow> (\<exists>pre n e post. rest = pre @ (n, e) # post
        \<and> (\<forall>(n', e')\<in>set pre. \<exists>c. resolveContent ext bh n' e' = Inr c)
        \<and> resolveContent ext bh n e = Inl err)"
    proof
      assume "\<exists>pre n e post. x # rest = pre @ (n, e) # post
        \<and> (\<forall>(n', e')\<in>set pre. \<exists>c. resolveContent ext bh n' e' = Inr c)
        \<and> resolveContent ext bh n e = Inl err"
      then obtain pre n e post where d: "x # rest = pre @ (n, e) # post"
        and p: "\<forall>(n', e')\<in>set pre. \<exists>c. resolveContent ext bh n' e' = Inr c"
        and r: "resolveContent ext bh n e = Inl err" by blast
      show "\<exists>pre n e post. rest = pre @ (n, e) # post
        \<and> (\<forall>(n', e')\<in>set pre. \<exists>c. resolveContent ext bh n' e' = Inr c)
        \<and> resolveContent ext bh n e = Inl err"
      proof (cases pre)
        case Nil
        with d x have "n = n0 \<and> e = e0" by simp
        with r Inr show ?thesis by simp
      next
        case (Cons y ys)
        with d have "rest = ys @ (n, e) # post" by simp
        moreover from p Cons have "\<forall>(n', e')\<in>set ys. \<exists>c. resolveContent ext bh n' e' = Inr c"
          by simp
        ultimately show ?thesis using r by blast
      qed
    next
      assume "\<exists>pre n e post. rest = pre @ (n, e) # post
        \<and> (\<forall>(n', e')\<in>set pre. \<exists>c. resolveContent ext bh n' e' = Inr c)
        \<and> resolveContent ext bh n e = Inl err"
      then obtain pre n e post where d: "rest = pre @ (n, e) # post"
        and p: "\<forall>(n', e')\<in>set pre. \<exists>c. resolveContent ext bh n' e' = Inr c"
        and r: "resolveContent ext bh n e = Inl err" by blast
      from d have "x # rest = (x # pre) @ (n, e) # post" by simp
      moreover from p x Inr have "\<forall>(n', e')\<in>set (x # pre). \<exists>c. resolveContent ext bh n' e' = Inr c"
        by simp
      ultimately show "\<exists>pre n e post. x # rest = pre @ (n, e) # post
        \<and> (\<forall>(n', e')\<in>set pre. \<exists>c. resolveContent ext bh n' e' = Inr c)
        \<and> resolveContent ext bh n e = Inl err" using r by blast
    qed
    with Inr x Cons.IH [of "setKey n0 c0 acc"] show ?thesis by simp
  qed
qed

lemma update_fresh: "k \<notin> fst ` set al \<Longrightarrow> AList.update k v al = al @ [(k, v)]"
  by (induction al) auto

lemma rearrangeLoop_Inr:
  assumes "rearrangeLoop ext bh entries acc = Inr res"
    and "distinct (map fst entries)"
    and "fst ` set acc \<inter> fst ` set entries = {}"
    and "''__proto__'' \<notin> fst ` set entries"
  shows "\<exists>new. res = acc @ new
           \<and> list_all2 (\<lambda>(n, c) (n', e). n = n' \<and> resolveContent ext bh n' e = Inr c) new entries"
  using assms
proof (induction entries arbitrary: acc)
  case Nil
  then show ?case by simp
next
  case (Cons x rest)
  obtain n0 e0 where x: "x = (n0, e0)" by (cases x)
  from Cons.prems(1) x obtain c0 where c0: "resolveContent ext bh n0 e0 = Inr c0"
    by (cases "resolveContent ext bh n0 e0") auto
  from Cons.prems(3) x have fresh: "n0 \<notin> fst ` set acc" by auto
  from Cons.prems(4) x have np: "n0 \<noteq> ''__proto__''" by auto
  have upd: "setKey n0 c0 acc = acc @ [(n0, c0)]"
    using np by (simp add: setKey_def update_fresh [OF fresh])
  from Cons.prems(1) x c0 upd have r: "rearrangeLoop ext bh rest (acc @ [(n0, c0)]) = Inr res"
    by simp
  from Cons.prems(2) have d: "distinct (map fst rest)" by simp
  from Cons.prems(2,3) x have i: "fst ` set (acc @ [(n0, c0)]) \<inter> fst ` set rest = {}"
    by (auto simp: image_iff)
  from Cons.prems(4) have p: "''__proto__'' \<notin> fst ` set rest" by simp
  from Cons.IH [OF r d i p] obtain new where
    n: "res = (acc @ [(n0, c0)]) @ new"
    and l: "list_all2 (\<lambda>(n, c) (n', e). n = n' \<and> resolveContent ext bh n' e = Inr c) new rest"
    by blast
  from n have "res = acc @ ((n0, c0) # new)" by simp
  moreover from l c0 x
  have "list_all2 (\<lambda>(n, c) (n', e). n = n' \<and> resolveContent ext bh n' e = Inr c)
          ((n0, c0) # new) (x # rest)" by simp
  ultimately show ?case by blast
qed

lemma find_filter_implied:
  assumes "\<And>x. P x \<Longrightarrow> Q x"
  shows "find P (filter Q xs) = find P xs"
  using assms by (induction xs) auto

lemma storeByHash_filter:
  assumes "Q h"
  shows "storeByHash ext (filter (\<lambda>f. Q (keccak ext f)) fs) h = storeByHash ext fs h"
proof -
  have "find (\<lambda>f. keccak ext f = h) (filter (\<lambda>f. Q (keccak ext f)) (rev fs))
          = find (\<lambda>f. keccak ext f = h) (rev fs)"
    by (rule find_filter_implied) (use assms in auto)
  then show ?thesis by (simp add: storeByHash_find rev_filter)
qed

lemma resolveContent_cong:
  assumes "bh (keccak256 e) = bh' (keccak256 e)"
  shows "resolveContent ext bh n e = resolveContent ext bh' n e"
  by (simp only: resolveContent_def Let_def getKey_def assms)

lemma rearrangeLoop_cong:
  assumes "\<forall>(n, e)\<in>set entries. bh (keccak256 e) = bh' (keccak256 e)"
  shows "rearrangeLoop ext bh entries acc = rearrangeLoop ext bh' entries acc"
  using assms
proof (induction entries arbitrary: acc)
  case Nil
  then show ?case by simp
next
  case (Cons x rest)
  obtain n0 e0 where x: "x = (n0, e0)" by (cases x)
  from Cons.prems x have "bh (keccak256 e0) = bh' (keccak256 e0)" by simp
  then have r: "resolveContent ext bh n0 e0 = resolveContent ext bh' n0 e0"
    by (rule resolveContent_cong)
  from Cons.prems have rest: "\<forall>(n, e)\<in>set rest. bh (keccak256 e) = bh' (keccak256 e)"
    by simp
  show ?case
  proof (cases "resolveContent ext bh' n0 e0")
    case (Inl err)
    with r x show ?thesis by simp
  next
    case (Inr c)
    have "rearrangeLoop ext bh (x # rest) acc = rearrangeLoop ext bh rest (setKey n0 c acc)"
      using r x Inr by simp
    also have "\<dots> = rearrangeLoop ext bh' rest (setKey n0 c acc)"
      by (rule Cons.IH [OF rest])
    also have "\<dots> = rearrangeLoop ext bh' (x # rest) acc"
      using x Inr by simp
    finally show ?thesis .
  qed
qed

lemma rearrangeSources_unreferenced:
  "rearrangeSources ext md (filter (\<lambda>f. keccak ext f \<in> keccak256 ` snd ` set (sources md)) fs)
     = rearrangeSources ext md fs"
  unfolding rearrangeSources_def
proof (rule rearrangeLoop_cong, intro ballI, clarify)
  fix n e assume "(n, e) \<in> set (forInOrder (sources md))"
  then have "(n, e) \<in> set (sources md)" by (simp add: set_forInOrder)
  then have "keccak256 e \<in> keccak256 ` snd ` set (sources md)" by force
  then show "storeByHash ext (filter (\<lambda>f. keccak ext f \<in> keccak256 ` snd ` set (sources md)) fs)
               (keccak256 e) = storeByHash ext fs (keccak256 e)"
    by (rule storeByHash_filter [where Q = "\<lambda>h. h \<in> keccak256 ` snd ` set (sources md)"])
qed

lemma list_all2_keys:
  "list_all2 (\<lambda>(n, c) (n', e). n = n' \<and> Q c n' e) res entries \<Longrightarrow> map fst res = map fst entries"
  by (induction rule: list_all2_induct) auto


lemma rearrangeSources_Inr:
  assumes r: "rearrangeSources ext md fs = Inr res"
    and d: "distinct (map fst (sources md))"
    and p: "''__proto__'' \<notin> fst ` set (sources md)"
    and o: "\<forall>(n, e)\<in>set (sources md). ordinaryEntry ext e"
  shows "map fst res = map fst (forInOrder (sources md))
       \<and> list_all2 (\<lambda>(n, v) (n', e). n = n'
            \<and> (\<exists>c. v = Str c \<and> keccak ext c = keccak256 e
                  \<and> (content e = Some c \<or> content e = None \<and> c \<in> set fs)))
           res (forInOrder (sources md))"
proof -
  have p': "''__proto__'' \<notin> fst ` set (forInOrder (sources md))"
    using p by (simp add: set_forInOrder)
  from rearrangeLoop_Inr [OF r [unfolded rearrangeSources_def] distinct_forInOrder [OF d] _ p']
  have l: "list_all2 (\<lambda>(n, c) (n', e). n = n'
              \<and> resolveContent ext (storeByHash ext fs) n' e = Inr c) res (forInOrder (sources md))"
    by simp
  have "list_all2 (\<lambda>(n, v) (n', e). n = n'
            \<and> (\<exists>c. v = Str c \<and> keccak ext c = keccak256 e
                  \<and> (content e = Some c \<or> content e = None \<and> c \<in> set fs)))
           res (forInOrder (sources md))"
  proof (rule list.rel_mono_strong [OF l])
    fix x y
    assume xs: "x \<in> set res" and ys: "y \<in> set (forInOrder (sources md))"
      and h: "(case x of (n, c) \<Rightarrow> \<lambda>(n', e). n = n'
                 \<and> resolveContent ext (storeByHash ext fs) n' e = Inr c) y"
    obtain n v where x: "x = (n, v)" by (cases x)
    obtain n' e where y: "y = (n', e)" by (cases y)
    from ys y o have oe: "ordinaryEntry ext e" by (auto simp: set_forInOrder)
    from h x y have "n = n'" and "resolveContent ext (storeByHash ext fs) n' e = Inr v"
      by simp_all
    with resolveContent_Inr [OF oe, of fs n' v] x y
    show "(case x of (n, v) \<Rightarrow> \<lambda>(n', e). n = n'
            \<and> (\<exists>c. v = Str c \<and> keccak ext c = keccak256 e
                  \<and> (content e = Some c \<or> content e = None \<and> c \<in> set fs))) y"
      by simp
  qed
  moreover from l have "map fst res = map fst (forInOrder (sources md))"
    by (rule list_all2_keys)
  ultimately show ?thesis by simp
qed

lemma first_failure:
  assumes o: "\<forall>(n, e)\<in>set (sources md). ordinaryEntry ext e"
  shows "rearrangeSources ext md fs = Inl err \<longleftrightarrow>
     (\<exists>pre n e post. forInOrder (sources md) = pre @ (n, e) # post
        \<and> (\<forall>(n', e')\<in>set pre. entryVerified ext fs e')
        \<and> resolveContent ext (storeByHash ext fs) n e = Inl err)"
proof -
  have v: "(\<forall>(n', e')\<in>set pre. \<exists>c. resolveContent ext (storeByHash ext fs) n' e' = Inr c)
          \<longleftrightarrow> (\<forall>(n', e')\<in>set pre. entryVerified ext fs e')"
    if s: "forInOrder (sources md) = pre @ (n, e) # post" for pre n e post
  proof (rule ball_cong [OF refl])
    fix x assume "x \<in> set pre"
    with s have "x \<in> set (forInOrder (sources md))" by simp
    then have x: "x \<in> set (sources md)" by (simp add: set_forInOrder)
    obtain n' e' where p: "x = (n', e')" by (cases x)
    with x o have "ordinaryEntry ext e'" by auto
    from resolveContent_verified [OF this, of fs n'] p
    show "(case x of (n', e') \<Rightarrow> \<exists>c. resolveContent ext (storeByHash ext fs) n' e' = Inr c)
            = (case x of (n', e') \<Rightarrow> entryVerified ext fs e')"
      by simp
  qed
  show ?thesis
  proof
    assume "rearrangeSources ext md fs = Inl err"
    then obtain pre n e post where s: "forInOrder (sources md) = pre @ (n, e) # post"
      and p: "\<forall>(n', e')\<in>set pre. \<exists>c. resolveContent ext (storeByHash ext fs) n' e' = Inr c"
      and r: "resolveContent ext (storeByHash ext fs) n e = Inl err"
      unfolding rearrangeSources_def rearrangeLoop_Inl_iff by blast
    from p v [OF s] have "\<forall>(n', e')\<in>set pre. entryVerified ext fs e'" by simp
    with s r show "\<exists>pre n e post. forInOrder (sources md) = pre @ (n, e) # post
        \<and> (\<forall>(n', e')\<in>set pre. entryVerified ext fs e')
        \<and> resolveContent ext (storeByHash ext fs) n e = Inl err" by blast
  next
    assume "\<exists>pre n e post. forInOrder (sources md) = pre @ (n, e) # post
        \<and> (\<forall>(n', e')\<in>set pre. entryVerified ext fs e')
        \<and> resolveContent ext (storeByHash ext fs) n e = Inl err"
    then obtain pre n e post where s: "forInOrder (sources md) = pre @ (n, e) # post"
      and p: "\<forall>(n', e')\<in>set pre. entryVerified ext fs e'"
      and r: "resolveContent ext (storeByHash ext fs) n e = Inl err" by blast
    from p v [OF s]
    have "\<forall>(n', e')\<in>set pre. \<exists>c. resolveContent ext (storeByHash ext fs) n' e' = Inr c"
      by simp
    with s r show "rearrangeSources ext md fs = Inl err"
      unfolding rearrangeSources_def rearrangeLoop_Inl_iff by blast
  qed
qed

lemma visited_ordinary:
  assumes o: "\<forall>(n, e)\<in>set (sources md). ordinaryEntry ext e"
    and s: "forInOrder (sources md) = pre @ (n, e) # post"
  shows "ordinaryEntry ext e"
proof -
  from s have "(n, e) \<in> set (forInOrder (sources md))" by simp
  then have "(n, e) \<in> set (sources md)" by (simp add: set_forInOrder)
  with o show ?thesis by auto
qed

lemma rearrangeSources_success_iff:
  assumes o: "\<forall>(n, e)\<in>set (sources md). ordinaryEntry ext e"
  shows "(\<exists>res. rearrangeSources ext md fs = Inr res)
           \<longleftrightarrow> (\<forall>(n, e)\<in>set (sources md). entryVerified ext fs e)"
proof
  assume ok: "\<exists>res. rearrangeSources ext md fs = Inr res"
  show "\<forall>(n, e)\<in>set (sources md). entryVerified ext fs e"
  proof (rule ccontr)
    assume "\<not> (\<forall>(n, e)\<in>set (sources md). entryVerified ext fs e)"
    then have "\<exists>x\<in>set (forInOrder (sources md)). \<not> entryVerified ext fs (snd x)"
      by (force simp: set_forInOrder)
    from split_list_first_prop [OF this]
    obtain pre x post where s: "forInOrder (sources md) = pre @ x # post"
      and bad: "\<not> entryVerified ext fs (snd x)"
      and good: "\<forall>y\<in>set pre. \<not> \<not> entryVerified ext fs (snd y)" by blast
    obtain n e where x: "x = (n, e)" by (cases x)
    from visited_ordinary [OF o s [unfolded x]] have oe: "ordinaryEntry ext e" .
    from resolveContent_verified [OF oe, of fs n] bad x
    have "\<not> (\<exists>c. resolveContent ext (storeByHash ext fs) n e = Inr c)" by simp
    then obtain err where err: "resolveContent ext (storeByHash ext fs) n e = Inl err"
      by (cases "resolveContent ext (storeByHash ext fs) n e") auto
    from good have "\<forall>(n', e')\<in>set pre. entryVerified ext fs e'" by auto
    with s x err have "rearrangeSources ext md fs = Inl err"
      unfolding first_failure [OF o] by blast
    with ok show False by simp
  qed
next
  assume all: "\<forall>(n, e)\<in>set (sources md). entryVerified ext fs e"
  show "\<exists>res. rearrangeSources ext md fs = Inr res"
  proof (cases "rearrangeSources ext md fs")
    case (Inl err)
    then obtain pre n e post where s: "forInOrder (sources md) = pre @ (n, e) # post"
      and r: "resolveContent ext (storeByHash ext fs) n e = Inl err"
      unfolding first_failure [OF o] by blast
    from s have "(n, e) \<in> set (forInOrder (sources md))" by simp
    then have "(n, e) \<in> set (sources md)" by (simp add: set_forInOrder)
    with all have v: "entryVerified ext fs e" by auto
    from resolveContent_verified [OF visited_ordinary [OF o s], of fs n] v r
    show ?thesis by simp
  next
    case (Inr res)
    then show ?thesis by blast
  qed
qed

lemma rearrangeSources_Invalid_iff:
  assumes o: "\<forall>(n, e)\<in>set (sources md). ordinaryEntry ext e"
  shows "rearrangeSources ext md fs = Inl (InvalidContent n) \<longleftrightarrow>
     (\<exists>pre e post c. forInOrder (sources md) = pre @ (n, e) # post
        \<and> (\<forall>(n', e')\<in>set pre. entryVerified ext fs e')
        \<and> content e = Some c \<and> keccak ext c \<noteq> keccak256 e)"
proof
  assume "rearrangeSources ext md fs = Inl (InvalidContent n)"
  then obtain pre n1 e post where s: "forInOrder (sources md) = pre @ (n1, e) # post"
    and p: "\<forall>(n', e')\<in>set pre. entryVerified ext fs e'"
    and r: "resolveContent ext (storeByHash ext fs) n1 e = Inl (InvalidContent n)"
    unfolding first_failure [OF o] by blast
  from r resolveContent_Invalid_iff [OF visited_ordinary [OF o s], of fs n1 n]
  obtain c where "n = n1" and "content e = Some c" and "keccak ext c \<noteq> keccak256 e" by blast
  with s p show "\<exists>pre e post c. forInOrder (sources md) = pre @ (n, e) # post
        \<and> (\<forall>(n', e')\<in>set pre. entryVerified ext fs e')
        \<and> content e = Some c \<and> keccak ext c \<noteq> keccak256 e" by blast
next
  assume "\<exists>pre e post c. forInOrder (sources md) = pre @ (n, e) # post
        \<and> (\<forall>(n', e')\<in>set pre. entryVerified ext fs e')
        \<and> content e = Some c \<and> keccak ext c \<noteq> keccak256 e"
  then obtain pre e post c where s: "forInOrder (sources md) = pre @ (n, e) # post"
    and p: "\<forall>(n', e')\<in>set pre. entryVerified ext fs e'"
    and c: "content e = Some c" and k: "keccak ext c \<noteq> keccak256 e" by blast
  from c k resolveContent_Invalid_iff [OF visited_ordinary [OF o s], of fs n n]
  have "resolveContent ext (storeByHash ext fs) n e = Inl (InvalidContent n)" by blast
  with s p show "rearrangeSources ext md fs = Inl (InvalidContent n)"
    unfolding first_failure [OF o] by blast
qed

lemma rearrangeSources_NotFound_iff:
  assumes o: "\<forall>(n, e)\<in>set (sources md). ordinaryEntry ext e"
  shows "rearrangeSources ext md fs = Inl (SourceNotFound n h) \<longleftrightarrow>
     (\<exists>pre e post. forInOrder (sources md) = pre @ (n, e) # post
        \<and> (\<forall>(n', e')\<in>set pre. entryVerified ext fs e')
        \<and> content e = None \<and> h = keccak256 e
        \<and> \<not> list_ex (\<lambda>f. keccak ext f = h) fs)"
proof
  assume "rearrangeSources ext md fs = Inl (SourceNotFound n h)"
  then obtain pre n1 e post where s: "forInOrder (sources md) = pre @ (n1, e) # post"
    and p: "\<forall>(n', e')\<in>set pre. entryVerified ext fs e'"
    and r: "resolveContent ext (storeByHash ext fs) n1 e = Inl (SourceNotFound n h)"
    unfolding first_failure [OF o] by blast
  from r resolveContent_NotFound_iff [OF visited_ordinary [OF o s], of fs n1 n h]
  have "n = n1" and "h = keccak256 e" and "content e = None"
    and "\<not> list_ex (\<lambda>f. keccak ext f = h) fs" by blast+
  with s p show "\<exists>pre e post. forInOrder (sources md) = pre @ (n, e) # post
        \<and> (\<forall>(n', e')\<in>set pre. entryVerified ext fs e')
        \<and> content e = None \<and> h = keccak256 e
        \<and> \<not> list_ex (\<lambda>f. keccak ext f = h) fs" by blast
next
  assume "\<exists>pre e post. forInOrder (sources md) = pre @ (n, e) # post
        \<and> (\<forall>(n', e')\<in>set pre. entryVerified ext fs e')
        \<and> content e = None \<and> h = keccak256 e
        \<and> \<not> list_ex (\<lambda>f. keccak ext f = h) fs"
  then obtain pre e post where s: "forInOrder (sources md) = pre @ (n, e) # post"
    and p: "\<forall>(n', e')\<in>set pre. entryVerified ext fs e'"
    and c: "content e = None" and h: "h = keccak256 e"
    and k: "\<not> list_ex (\<lambda>f. keccak ext f = h) fs" by blast
  from c h k resolveContent_NotFound_iff [OF visited_ordinary [OF o s], of fs n n h]
  have "resolveContent ext (storeByHash ext fs) n e = Inl (SourceNotFound n h)" by blast
  with s p show "rearrangeSources ext md fs = Inl (SourceNotFound n h)"
    unfolding first_failure [OF o] by blast
qed

text \<open>
  Claim C5, amended. For a descriptor whose file names are distinct and none of which
  is \<open>__proto__\<close>, and whose entries have inline content that is not empty or a
  declared digest that is neither the digest of the empty text nor the name of a member
  of \<open>Object.prototype\<close>: \<open>rearrangeSources\<close> succeeds exactly when every declared
  entry is verified; its result then holds exactly the declared file names, in the order
  in which \<open>for ... in\<close> visits them, each with a text whose digest is the declared one
  (the inline content, or an uploaded file). Otherwise it raises the error of the first
  entry, in that order, that is not verified: \<open>Invalid content for file\<close> exactly
  when that entry has inline content with another digest, and the source-not-found
  error, with the file name and the declared digest, exactly when that entry has no
  inline content and no uploaded file has the declared digest. Uploaded files whose
  digest no entry declares can be removed without changing the outcome.
\<close>

theorem rearrangeSources_assembly:
  assumes d: "distinct (map fst (sources md))"
    and p: "''__proto__'' \<notin> fst ` set (sources md)"
    and o: "\<forall>(n, e)\<in>set (sources md). ordinaryEntry ext e"
  shows "((\<exists>res. rearrangeSources ext md fs = Inr res)
            \<longleftrightarrow> (\<forall>(n, e)\<in>set (sources md). entryVerified ext fs e))
       \<and> (rearrangeSources ext md fs = Inr res
            \<longrightarrow> map fst res = map fst (forInOrder (sources md))
              \<and> list_all2 (\<lambda>(n, v) (n', e). n = n'
                   \<and> (\<exists>c. v = Str c \<and> keccak ext c = keccak256 e
                         \<and> (content e = Some c \<or> content e = None \<and> c \<in> set fs)))
                  res (forInOrder (sources md)))
       \<and> (rearrangeSources ext md fs = Inl (InvalidContent n) \<longleftrightarrow>
            (\<exists>pre e post c. forInOrder (sources md) = pre @ (n, e) # post
               \<and> (\<forall>(n', e')\<in>set pre. entryVerified ext fs e')
               \<and> content e = Some c \<and> keccak ext c \<noteq> keccak256 e))
       \<and> (rearrangeSources ext md fs = Inl (SourceNotFound n h) \<longleftrightarrow>
            (\<exists>pre e post. forInOrder (sources md) = pre @ (n, e) # post
               \<and> (\<forall>(n', e')\<in>set pre. entryVerified ext fs e')
               \<and> content e = None \<and> h = keccak256 e
               \<and> \<not> list_ex (\<lambda>f. keccak ext f = h) fs))
       \<and> rearrangeSources ext md
            (filter (\<lambda>f. keccak ext f \<in> keccak256 ` snd ` set (sources md)) fs)
          = rearrangeSources ext md fs"
proof (intro conjI impI)
  show "(\<exists>res. rearrangeSources ext md fs = Inr res)
            \<longleftrightarrow> (\<forall>(n, e)\<in>set (sources md). entryVerified ext fs e)"
    by (rule rearrangeSources_success_iff [OF o])
  show "rearrangeSources ext md fs = Inl (InvalidContent n) \<longleftrightarrow>
            (\<exists>pre e post c. forInOrder (sources md) = pre @ (n, e) # post
               \<and> (\<forall>(n', e')\<in>set pre. entryVerified ext fs e')
               \<and> content e = Some c \<and> keccak ext c \<noteq> keccak256 e)"
    by (rule rearrangeSources_Invalid_iff [OF o])
  show "rearrangeSources ext md fs = Inl (SourceNotFound n h) \<longleftrightarrow>
            (\<exists>pre e post. forInOrder (sources md) = pre @ (n, e) # post
               \<and> (\<forall>(n', e')\<in>set pre. entryVerified ext fs e')
               \<and> content e = None \<and> h = keccak256 e
               \<and> \<not> list_ex (\<lambda>f. keccak ext f = h) fs)"
    by (rule rearrangeSources_NotFound_iff [OF o])
  show "rearrangeSources ext md
            (filter (\<lambda>f. keccak ext f \<in> keccak256 ` snd ` set (sources md)) fs)
          = rearrangeSources ext md fs"
    by (rule rearrangeSources_unreferenced)
next
  assume r: "rearrangeSources ext md fs = Inr res"
  from rearrangeSources_Inr [OF r d p o]
  show "map fst res = map fst (forInOrder (sources md))"
    and "list_all2 (\<lambda>(n, v) (n', e). n = n'
                   \<and> (\<exists>c. v = Str c \<and> keccak ext c = keccak256 e
                         \<and> (content e = Some c \<or> content e = None \<and> c \<in> set fs)))
                  res (forInOrder (sources md))"
    by simp_all
qed

text \<open>
  Claim C5, as stated, fails. The loop stops at the first entry that fails, in the
  order of \<open>for ... in\<close>: when \<open>C.sol\<close> is missing and the later \<open>B.sol\<close> has inline
  content with another digest, the error is the missing source, not the invalid content,
  and the missing \<open>7\<close> is reported before \<open>B.sol\<close> although it is declared after it.
  An uploaded empty file is never found, although its digest is the declared one, and
  empty inline content is looked up instead of compared: empty content is falsy. A
  declared digest \<open>toString\<close> is resolved by the inherited member of the plain object
  \<open>byHash\<close>, and the file name \<open>__proto__\<close> is missing from the result.
\<close>

theorem rearrangeSources_counterexample:
  "rearrangeSources demoExt demoMissingThenTampered [''contract A {}''] =
     Inl (SourceNotFound ''C.sol'' ''0xcontract C {}'')
   \<and> map fst (sources demoMissingThenTampered) = [''C.sol'', ''B.sol'']
   \<and> content (snd (sources demoMissingThenTampered ! 1)) = Some ''contract B { }''
   \<and> keccak demoExt ''contract B { }'' \<noteq> keccak256 (snd (sources demoMissingThenTampered ! 1))
   \<and> rearrangeSources demoExt demoIndexName [''contract A {}''] =
       Inl (SourceNotFound ''7'' ''0xcontract C {}'')
   \<and> map fst (sources demoIndexName) = [''B.sol'', ''7'']
   \<and> rearrangeSources demoExt demoEmptyFile [''''] = Inl (SourceNotFound ''E.sol'' ''0x'')
   \<and> keccak demoExt '''' = ''0x''
   \<and> rearrangeSources demoExt demoEmptyInline [''contract A {}''] =
       Inr [(''A.sol'', Str ''contract A {}'')]
   \<and> content (snd (sources demoEmptyInline ! 0)) = Some ''''
   \<and> keccak demoExt '''' \<noteq> keccak256 (snd (sources demoEmptyInline ! 0))
   \<and> rearrangeSources demoExt demoInheritedDigest [''contract A {}''] =
       Inr [(''A.sol'', Inherited ''toString'')]
   \<and> keccak demoExt ''contract A {}'' \<noteq> ''toString''
   \<and> rearrangeSources demoExt demoProtoName [''contract A {}''] = Inr []
   \<and> map fst (sources demoProtoName) = [''__proto__'']"
  by code_simp

theorem rearrangeSources_assembly_witness:
  "distinct (map fst (sources demoComplete))
   \<and> rearrangeSources demoExt demoComplete [''contract A {}'', '''', ''README''] =
       Inr [(''A.sol'', Str ''contract A {}''), (''B.sol'', Str ''contract B {}'')]
   \<and> map fst [(''A.sol'', Str ''contract A {}''), (''B.sol'', Str ''contract B {}'')]
       = map fst (forInOrder (sources demoComplete))
   \<and> rearrangeSources demoExt demoComplete [''contract A {}''] =
       rearrangeSources demoExt demoComplete [''contract A {}'', '''', ''README'']
   \<and> rearrangeSources demoExt demoTampered [''contract A {}'', '''', ''README''] =
       Inl (InvalidContent ''B.sol'')
   \<and> rearrangeSources demoExt demoMissingThenTampered [''contract A {}'', '''', ''README''] =
       Inl (SourceNotFound ''C.sol'' ''0xcontract C {}'')"
proof -
  have d: "distinct (map fst (sources demoComplete))" by code_simp
  have p: "''__proto__'' \<notin> fst ` set (sources demoComplete)" by code_simp
  have o: "\<forall>(n, e)\<in>set (sources demoComplete). ordinaryEntry demoExt e" by code_simp
  have r: "rearrangeSources demoExt demoComplete [''contract A {}'', '''', ''README''] =
       Inr [(''A.sol'', Str ''contract A {}''), (''B.sol'', Str ''contract B {}'')]" by code_simp
  have f: "filter (\<lambda>f. keccak demoExt f \<in> keccak256 ` snd ` set (sources demoComplete))
             [''contract A {}'', '''', ''README''] = [''contract A {}'']" by code_simp
  have t: "rearrangeSources demoExt demoTampered [''contract A {}'', '''', ''README''] =
       Inl (InvalidContent ''B.sol'')" by code_simp
  have m: "rearrangeSources demoExt demoMissingThenTampered [''contract A {}'', '''', ''README''] =
       Inl (SourceNotFound ''C.sol'' ''0xcontract C {}'')" by code_simp
  note a = rearrangeSources_assembly [OF d p o, of "[''contract A {}'', '''', ''README'']"
      "[(''A.sol'', Str ''contract A {}''), (''B.sol'', Str ''contract B {}'')]" "''B.sol''" "''0x''"]
  from a r have k: "map fst [(''A.sol'', Str ''contract A {}''), (''B.sol'', Str ''contract B {}'')]
       = map fst (forInOrder (sources demoComplete))" by blast
  from a f have u: "rearrangeSources demoExt demoComplete [''contract A {}''] =
       rearrangeSources demoExt demoComplete [''contract A {}'', '''', ''README'']" by simp
  from d r k u t m show ?thesis by blast
qed

end
